theory Spec2Isabelle
  imports Complex_Main
begin

section \<open>Python exceptions\<close>

text \<open>
  Every exception the four programs can raise is a value. Python's built-in exceptions
  keep their names; \<open>Raised c\<close> is an instance of one of the exception classes that
  \<^verbatim>\<open>tictactoe.py\<close> declares. \<open>InvariantViolation\<close> is the error kind of the
  specification's taxonomy; no source file declares or raises it.
\<close>

datatype exn_class = GameOver | InvalidAction

datatype py_error =
    Raised exn_class
  | TypeError
  | IndexError
  | KeyError
  | ValueError
  | ZeroDivisionError
  | InvariantViolation

section \<open>Tic-tac-toe (\<^verbatim>\<open>src/0_search/tictactoe/tictactoe.py\<close>)\<close>

text \<open>
  \<^verbatim>\<open>X = "X"\<close>, \<^verbatim>\<open>O = "O"\<close>, \<^verbatim>\<open>EMPTY = None\<close>: a cell is an optional mark, and
  the board is the list of its rows, as in \<^verbatim>\<open>initial_state\<close>.
\<close>

datatype mark = X_mark | O_mark

type_synonym cell = "mark option"

type_synonym board = "cell list list"

definition EMPTY :: cell where
  "EMPTY = None"

definition initial_state :: board where
  "initial_state = [[EMPTY, EMPTY, EMPTY],
                    [EMPTY, EMPTY, EMPTY],
                    [EMPTY, EMPTY, EMPTY]]"

text \<open>
  \<^verbatim>\<open>terminal\<close>: the two nested \<^verbatim>\<open>for\<close> loops return \<^verbatim>\<open>False\<close> at the first
  empty cell and \<^verbatim>\<open>True\<close> when they run out. Nothing else is looked at.
\<close>

fun row_terminal :: "cell list \<Rightarrow> bool" where
  "row_terminal [] = True"
| "row_terminal (c # cs) = (if c = EMPTY then False else row_terminal cs)"

fun terminal :: "board \<Rightarrow> bool" where
  "terminal [] = True"
| "terminal (row # rows) = (if row_terminal row then terminal rows else False)"

text \<open>\<^verbatim>\<open>player\<close>: count the marks, then compare.\<close>

fun count_row :: "mark \<Rightarrow> cell list \<Rightarrow> nat" where
  "count_row m [] = 0"
| "count_row m (c # cs) = (if c = Some m then Suc (count_row m cs) else count_row m cs)"

fun count_board :: "mark \<Rightarrow> board \<Rightarrow> nat" where
  "count_board m [] = 0"
| "count_board m (row # rows) = count_row m row + count_board m rows"

definition player :: "board \<Rightarrow> mark option" where
  "player b =
     (let numX = count_board X_mark b; numO = count_board O_mark b in
      if numX > numO then Some O_mark
      else if \<not> terminal b \<and> numX = numO then Some X_mark
      else None)"

text \<open>
  \<^verbatim>\<open>actions\<close>: \<^verbatim>\<open>board[i][j]\<close> for \<open>i\<close>, \<open>j\<close> in \<^verbatim>\<open>range(3)\<close>; a subscript
  past the end of a list raises \<^verbatim>\<open>IndexError\<close>.
\<close>

definition cell_at :: "board \<Rightarrow> nat \<Rightarrow> nat \<Rightarrow> py_error + cell" where
  "cell_at b i j =
     (if i < length b then
        (if j < length (b ! i) then Inr (b ! i ! j) else Inl IndexError)
      else Inl IndexError)"

fun actions_loop :: "board \<Rightarrow> (nat \<times> nat) list \<Rightarrow> (int \<times> int) set \<Rightarrow> py_error + (int \<times> int) set" where
  "actions_loop b [] acc = Inr acc"
| "actions_loop b ((i, j) # ps) acc =
     (case cell_at b i j of
        Inl e \<Rightarrow> Inl e
      | Inr c \<Rightarrow> actions_loop b ps (if c = EMPTY then insert (int i, int j) acc else acc))"

definition actions :: "board \<Rightarrow> py_error + (int \<times> int) set" where
  "actions b =
     actions_loop b [(0, 0), (0, 1), (0, 2), (1, 0), (1, 1), (1, 2), (2, 0), (2, 1), (2, 2)] {}"

text \<open>
  \<^verbatim>\<open>raise GameOver\<close> and \<^verbatim>\<open>raise InvalidAction\<close> name the class, so Python
  instantiates it with no argument. Both classes declare
  \<^verbatim>\<open>def __init__(self, expression, message)\<close>: two required parameters. A call with
  another number of arguments raises \<^verbatim>\<open>TypeError\<close> instead of the instance.
\<close>

definition init_params :: "exn_class \<Rightarrow> nat" where
  "init_params c = (case c of GameOver \<Rightarrow> 2 | InvalidAction \<Rightarrow> 2)"

definition raise_class :: "exn_class \<Rightarrow> nat \<Rightarrow> py_error + 'a" where
  "raise_class c nargs = (if nargs = init_params c then Inl (Raised c) else Inl TypeError)"

text \<open>
  \<^verbatim>\<open>result_board[i, j] = p\<close> subscripts a list with the tuple \<open>(i, j)\<close>. A Python
  list takes integers and slices only: the assignment raises \<^verbatim>\<open>TypeError\<close> for
  every list, tuple and value.
\<close>

definition list_setitem_tuple :: "'a list \<Rightarrow> int \<times> int \<Rightarrow> 'b \<Rightarrow> py_error + 'a list" where
  "list_setitem_tuple xs ij v = Inl TypeError"

definition result :: "board \<Rightarrow> int \<times> int \<Rightarrow> py_error + board" where
  "result b action =
     (if terminal b then raise_class GameOver 0
      else case actions b of
        Inl e \<Rightarrow> Inl e
      | Inr acts \<Rightarrow>
          if action \<notin> acts then raise_class InvalidAction 0
          else
            (let p = player b; result_board = b in
             case list_setitem_tuple result_board action p of
               Inl e \<Rightarrow> Inl e
             | Inr result_board' \<Rightarrow> Inr result_board'))"

text \<open>
  The specification's own words for \<^verbatim>\<open>terminal\<close>, to compare the source with: a
  mark wins when it fills a row, a column or a diagonal of the 3 by 3 board, and the
  board is over when some mark wins or no cell is empty.
\<close>

definition spec_lines :: "((nat \<times> nat) list) list" where
  "spec_lines =
     [[(0, 0), (0, 1), (0, 2)], [(1, 0), (1, 1), (1, 2)], [(2, 0), (2, 1), (2, 2)],
      [(0, 0), (1, 0), (2, 0)], [(0, 1), (1, 1), (2, 1)], [(0, 2), (1, 2), (2, 2)],
      [(0, 0), (1, 1), (2, 2)], [(0, 2), (1, 1), (2, 0)]]"

definition spec_wins :: "board \<Rightarrow> mark \<Rightarrow> bool" where
  "spec_wins b m = list_ex (list_all (\<lambda>(i, j). b ! i ! j = Some m)) spec_lines"

definition spec_full :: "board \<Rightarrow> bool" where
  "spec_full b = list_all (list_all (\<lambda>c. c \<noteq> EMPTY)) b"

definition spec_terminal :: "board \<Rightarrow> bool" where
  "spec_terminal b = (spec_wins b X_mark \<or> spec_wins b O_mark \<or> spec_full b)"

definition board_early_win :: board where
  "board_early_win = [[Some X_mark, Some X_mark, Some X_mark],
                      [Some O_mark, Some O_mark, EMPTY],
                      [EMPTY, EMPTY, EMPTY]]"

definition board_full :: board where
  "board_full = [[Some X_mark, Some O_mark, Some X_mark],
                 [Some X_mark, Some O_mark, Some O_mark],
                 [Some O_mark, Some X_mark, Some X_mark]]"

section \<open>Knights and knaves (\<^verbatim>\<open>src/1_knowledge/knights/puzzle.py\<close>)\<close>

text \<open>
  \<^verbatim>\<open>puzzle.py\<close> builds its knowledge bases with \<^verbatim>\<open>from logic import *\<close>; the
  module \<^verbatim>\<open>logic\<close> (the sentence classes and \<^verbatim>\<open>model_check\<close>) is not among the
  source files. The sentence type, its evaluation and the entailment check are
  therefore taken from the specification; the knowledge base is the source's.
\<close>

text \<open>
  Modelled from the spec: the sentence classes of the missing module \<^verbatim>\<open>logic\<close>.
  ``Sentence: a tagged variant, one of Symbol, Not(S), And(S1...Sn), Or(S1...Sn),
  Implication(S, S), Biconditional(S, S)''; two symbols with the same name are equal.
\<close>

datatype sentence =
    Symbol string
  | NotS sentence
  | And "sentence list"
  | Or "sentence list"
  | Implication sentence sentence
  | Biconditional sentence sentence

text \<open>
  Modelled from the spec: a model, missing with \<^verbatim>\<open>logic\<close>. It maps every symbol
  to a truth value, so no symbol of a sentence is unbound.
\<close>

type_synonym model = "string \<Rightarrow> bool"

text \<open>
  Modelled from the spec: \<^verbatim>\<open>evaluate\<close> of the missing module \<^verbatim>\<open>logic\<close>.
  ``Symbol s gives model[s]; Not negates; And is the conjunction (empty: true); Or the
  disjunction (empty: false); Implication(a, b) is (not a) or b; Biconditional(a, b)
  is a = b.''
\<close>

fun evaluate :: "sentence \<Rightarrow> model \<Rightarrow> bool" where
  "evaluate (Symbol s) m = m s"
| "evaluate (NotS s) m = (\<not> evaluate s m)"
| "evaluate (And ss) m = list_all (\<lambda>s. evaluate s m) ss"
| "evaluate (Or ss) m = list_ex (\<lambda>s. evaluate s m) ss"
| "evaluate (Implication a b) m = ((\<not> evaluate a m) \<or> evaluate b m)"
| "evaluate (Biconditional a b) m = (evaluate a m = evaluate b m)"

text \<open>
  Modelled from the spec: \<^verbatim>\<open>symbols\<close> of the missing module \<^verbatim>\<open>logic\<close>, the atoms
  of a sentence, listed in order of appearance.
\<close>

fun symbols :: "sentence \<Rightarrow> string list" where
  "symbols (Symbol s) = [s]"
| "symbols (NotS s) = symbols s"
| "symbols (And ss) = concat (map symbols ss)"
| "symbols (Or ss) = concat (map symbols ss)"
| "symbols (Implication a b) = symbols a @ symbols b"
| "symbols (Biconditional a b) = symbols a @ symbols b"

text \<open>
  Modelled from the spec: the enumeration inside the missing \<^verbatim>\<open>model_check\<close>.
  ``Enumerate all \<open>2 ^ |S|\<close> total assignments over S'': every listed symbol is set
  to true and to false; symbols outside the list stay false and are never read.
\<close>

fun all_models :: "string list \<Rightarrow> model list" where
  "all_models [] = [\<lambda>_. False]"
| "all_models (s # ss) = concat (map (\<lambda>m. [m(s := True), m(s := False)]) (all_models ss))"

text \<open>
  Modelled from the spec: \<^verbatim>\<open>model_check\<close> of the missing module \<^verbatim>\<open>logic\<close>, which
  \<^verbatim>\<open>main\<close> calls as \<^verbatim>\<open>model_check(knowledge, symbol)\<close>. ``Let S = symbols(knowledge)
  united with symbols(query). For every assignment that makes knowledge true, require
  query to be true as well. Return true iff no counterexample is found.''
\<close>

definition model_check :: "sentence \<Rightarrow> sentence \<Rightarrow> bool" where
  "model_check knowledge query =
     list_all (\<lambda>m. if evaluate knowledge m then evaluate query m else True)
       (all_models (remdups (symbols knowledge @ symbols query)))"

text \<open>The symbols and the knowledge base of Puzzle 2, as \<^verbatim>\<open>puzzle.py\<close> writes them.\<close>

definition AKnight :: sentence where
  "AKnight = Symbol ''A is a Knight''"

definition AKnave :: sentence where
  "AKnave = Symbol ''A is a Knave''"

definition BKnight :: sentence where
  "BKnight = Symbol ''B is a Knight''"

definition BKnave :: sentence where
  "BKnave = Symbol ''B is a Knave''"

definition knowledge2 :: sentence where
  "knowledge2 = And [
     Or [AKnight, AKnave],
     Implication AKnight (NotS AKnave),
     Or [BKnight, BKnave],
     Implication BKnight (NotS BKnave),
     Biconditional AKnight (Or [And [AKnight, BKnight],
                               And [AKnave, BKnave]]),
     Biconditional BKnight (Or [And [AKnight, BKnave],
                               And [AKnave, BKnight]])]"

section \<open>Heredity (\<^verbatim>\<open>src/2_uncertainty/heredity/heredity.py\<close>)\<close>

text \<open>
  Python floats are modelled as real numbers: products, sums and quotients are exact.
  A dictionary is an association list in insertion order; its keys are distinct, so
  running over the entries is running over the keys and looking each one up.

  One row of the CSV file, as \<^verbatim>\<open>load_data\<close> stores it: \<^verbatim>\<open>trait\<close> is
  \<^verbatim>\<open>True\<close>, \<^verbatim>\<open>False\<close> or \<^verbatim>\<open>None\<close> (unknown).
\<close>

record person =
  name :: string
  mother :: "string option"
  father :: "string option"
  trait :: "bool option"

type_synonym people = "(string \<times> person) list"

text \<open>
  The table \<^verbatim>\<open>PROBS\<close>. The source reads \<^verbatim>\<open>PROBS["gene"]\<close> and
  \<^verbatim>\<open>PROBS["trait"]\<close> at the literal keys 2, 1 and 0 only.
\<close>

definition PROBS_gene :: "nat \<Rightarrow> real" where
  "PROBS_gene g = (if g = 2 then 0.01 else if g = 1 then 0.03 else 0.96)"

definition PROBS_trait :: "nat \<Rightarrow> bool \<Rightarrow> real" where
  "PROBS_trait g t =
     (if g = 2 then (if t then 0.65 else 0.35)
      else if g = 1 then (if t then 0.56 else 0.44)
      else (if t then 0.01 else 0.99))"

definition PROBS_mutation :: real where
  "PROBS_mutation = 0.01"

text \<open>
  \<^verbatim>\<open>probabilities[person]\<close>: the dictionary \<^verbatim>\<open>"gene"\<close> with keys 2, 1, 0 and the
  dictionary \<^verbatim>\<open>"trait"\<close> with keys \<^verbatim>\<open>True\<close>, \<^verbatim>\<open>False\<close>.
\<close>

record prob_entry =
  p_gene :: "nat \<Rightarrow> real"
  p_trait :: "bool \<Rightarrow> real"

type_synonym probabilities = "(string \<times> prob_entry) list"

text \<open>
  \<^verbatim>\<open>powerset\<close>: \<^verbatim>\<open>itertools.combinations(s, r)\<close> for \<open>r = 0, ..., len(s)\<close>, chained.
  The argument is the list \<^verbatim>\<open>list(s)\<close>; which order Python gives the elements of a
  set is not fixed by the language, so it is the order of the list passed in.
\<close>

fun combinations :: "'a list \<Rightarrow> nat \<Rightarrow> 'a list list" where
  "combinations xs 0 = [[]]"
| "combinations [] (Suc r) = []"
| "combinations (x # xs) (Suc r) = map ((#) x) (combinations xs r) @ combinations xs (Suc r)"

definition powerset :: "'a list \<Rightarrow> 'a set list" where
  "powerset s = map set (concat (map (combinations s) [0 ..< length s + 1]))"

text \<open>\<^verbatim>\<open>mom in one_gene\<close>, where \<^verbatim>\<open>mom\<close> may be \<^verbatim>\<open>None\<close>: the sets hold names.\<close>

definition is_in :: "string option \<Rightarrow> string set \<Rightarrow> bool" where
  "is_in parent s = (case parent of None \<Rightarrow> False | Some n \<Rightarrow> n \<in> s)"

text \<open>
  \<^verbatim>\<open>joint_probability\<close>, one pass of its loop in two steps. \<open>gene_probability\<close> is
  the variable \<^verbatim>\<open>probability\<close> where its branch has finished with the genes: before
  line 231 for a person in \<^verbatim>\<open>one_gene\<close>, before line 260 for a person in
  \<^verbatim>\<open>two_genes\<close>, and at the end of the \<^verbatim>\<open>else\<close> branch (line 285) for the others.
\<close>

definition gene_probability :: "person \<Rightarrow> string \<Rightarrow> string set \<Rightarrow> string set \<Rightarrow> real" where
  "gene_probability entry person one_gene two_genes =
     (let mom = mother entry; dad = father entry in
      if person \<in> one_gene then
        (if mom = None \<and> dad = None then PROBS_gene 1
         else
           (let p1 = (if is_in mom one_gene then 0.5
                      else if is_in mom two_genes then 1 - PROBS_mutation
                      else PROBS_mutation);
                p1 = p1 * (if is_in dad one_gene then 0.5
                           else if is_in dad two_genes then PROBS_mutation
                           else 1 - PROBS_mutation);
                p2 = (if is_in mom one_gene then 0.5
                      else if is_in mom two_genes then PROBS_mutation
                      else 1 - PROBS_mutation);
                p2 = p2 * (if is_in dad one_gene then 0.5
                           else if is_in dad two_genes then 1 - PROBS_mutation
                           else PROBS_mutation)
            in p1 + p2))
      else if person \<in> two_genes then
        (if mom = None \<and> dad = None then PROBS_gene 2
         else
           (let probability = (if is_in mom one_gene then 0.5
                               else if is_in mom two_genes then 1 - PROBS_mutation
                               else PROBS_mutation)
            in probability * (if is_in dad one_gene then 0.5
                              else if is_in dad two_genes then 1 - PROBS_mutation
                              else PROBS_mutation)))
      else
        (if mom = None \<and> dad = None then PROBS_gene 0
         else
           (let probability = (if is_in mom one_gene then 0.5
                               else if is_in mom two_genes then 1 - PROBS_mutation
                               else PROBS_mutation)
            in probability * (if is_in dad one_gene then 0.5
                              else if is_in dad two_genes then 1 - PROBS_mutation
                              else PROBS_mutation))))"

text \<open>
  The rest of the pass: the first two branches multiply by their own trait entry
  (lines 231 and 260); line 288 is indented at the level of the \<^verbatim>\<open>if\<close>, outside the
  \<^verbatim>\<open>else\<close>, so every person is then multiplied by \<^verbatim>\<open>PROBS["trait"][0][...]\<close>.
\<close>

definition person_probability ::
  "person \<Rightarrow> string \<Rightarrow> string set \<Rightarrow> string set \<Rightarrow> string set \<Rightarrow> real" where
  "person_probability entry person one_gene two_genes have_trait =
     (let probability = gene_probability entry person one_gene two_genes;
          probability =
            (if person \<in> one_gene then probability * PROBS_trait 1 (person \<in> have_trait)
             else if person \<in> two_genes then probability * PROBS_trait 2 (person \<in> have_trait)
             else probability)
      in probability * PROBS_trait 0 (person \<in> have_trait))"

definition joint_probability :: "people \<Rightarrow> string set \<Rightarrow> string set \<Rightarrow> string set \<Rightarrow> real" where
  "joint_probability people one_gene two_genes have_trait =
     fold (\<lambda>(person, entry) cumulative_probability.
             cumulative_probability * person_probability entry person one_gene two_genes have_trait)
       people 1"

text \<open>\<^verbatim>\<open>update\<close>: every person gets \<open>p\<close> added to one gene bucket and one trait bucket.\<close>

definition update_entry ::
  "string \<Rightarrow> prob_entry \<Rightarrow> string set \<Rightarrow> string set \<Rightarrow> string set \<Rightarrow> real \<Rightarrow> prob_entry" where
  "update_entry person d one_gene two_genes have_trait p =
     (let k = (if person \<in> one_gene then 1 else if person \<in> two_genes then 2 else 0);
          g = (p_gene d)(k := p_gene d k + p);
          t = (p_trait d)((person \<in> have_trait) := p_trait d (person \<in> have_trait) + p)
      in \<lparr>p_gene = g, p_trait = t\<rparr>)"

definition update ::
  "probabilities \<Rightarrow> string set \<Rightarrow> string set \<Rightarrow> string set \<Rightarrow> real \<Rightarrow> probabilities" where
  "update probabilities one_gene two_genes have_trait p =
     map (\<lambda>(person, d). (person, update_entry person d one_gene two_genes have_trait p))
       probabilities"

text \<open>
  \<^verbatim>\<open>normalize\<close>: \<^verbatim>\<open>gene_sum\<close> starts at 0 and adds the buckets 0, 1, 2; each
  \<^verbatim>\<open>/=\<close> is a Python division, which raises \<^verbatim>\<open>ZeroDivisionError\<close> when the
  divisor is zero. The exception leaves the loop at the first person it meets.
\<close>

definition gene_sum :: "prob_entry \<Rightarrow> real" where
  "gene_sum d = 0 + p_gene d 0 + p_gene d 1 + p_gene d 2"

definition trait_sum :: "prob_entry \<Rightarrow> real" where
  "trait_sum d = p_trait d True + p_trait d False"

definition normalize_entry :: "prob_entry \<Rightarrow> prob_entry" where
  "normalize_entry d =
     \<lparr>p_gene = (\<lambda>i. if i < 3 then p_gene d i / gene_sum d else p_gene d i),
      p_trait = (\<lambda>b. p_trait d b / trait_sum d)\<rparr>"

fun normalize_probabilities :: "probabilities \<Rightarrow> py_error + probabilities" where
  "normalize_probabilities [] = Inr []"
| "normalize_probabilities ((person, d) # rest) =
     (if gene_sum d = 0 then Inl ZeroDivisionError
      else if trait_sum d = 0 then Inl ZeroDivisionError
      else
        (case normalize_probabilities rest of
           Inl e \<Rightarrow> Inl e
         | Inr rest' \<Rightarrow> Inr ((person, normalize_entry d) # rest')))"

text \<open>
  The definitions above read every \<^verbatim>\<open>+\<close> and \<^verbatim>\<open>/\<close> of \<^verbatim>\<open>normalize\<close> as exact.
  Python computes them on floats: each operation returns the rounding of the exact
  result. The definitions below are the same statements, line by line, with the
  rounding \<open>r\<close> of a float operation written out; \<open>r = (\<lambda>x. x)\<close> gives the exact
  ones back.
\<close>

definition gene_sum_rounded :: "(real \<Rightarrow> real) \<Rightarrow> prob_entry \<Rightarrow> real" where
  "gene_sum_rounded r d = r (r (r (0 + p_gene d 0) + p_gene d 1) + p_gene d 2)"

definition trait_sum_rounded :: "(real \<Rightarrow> real) \<Rightarrow> prob_entry \<Rightarrow> real" where
  "trait_sum_rounded r d = r (p_trait d True + p_trait d False)"

definition normalize_entry_rounded :: "(real \<Rightarrow> real) \<Rightarrow> prob_entry \<Rightarrow> prob_entry" where
  "normalize_entry_rounded r d =
     \<lparr>p_gene = (\<lambda>i. if i < 3 then r (p_gene d i / gene_sum_rounded r d) else p_gene d i),
      p_trait = (\<lambda>b. r (p_trait d b / trait_sum_rounded r d))\<rparr>"

fun normalize_rounded :: "(real \<Rightarrow> real) \<Rightarrow> probabilities \<Rightarrow> py_error + probabilities" where
  "normalize_rounded r [] = Inr []"
| "normalize_rounded r ((person, d) # rest) =
     (if gene_sum_rounded r d = 0 then Inl ZeroDivisionError
      else if trait_sum_rounded r d = 0 then Inl ZeroDivisionError
      else
        (case normalize_rounded r rest of
           Inl e \<Rightarrow> Inl e
         | Inr rest' \<Rightarrow> Inr ((person, normalize_entry_rounded r d) # rest')))"

text \<open>
  What is known of the rounding: for an exact result \<open>x\<close> of magnitude at most \<open>M\<close>
  (no overflow) the float returned is within \<open>u * |x| + \<eta>\<close> of it, \<open>u\<close> being the
  relative error of a rounded operation and \<open>\<eta>\<close> the absolute error of one that
  underflows. IEEE double precision with rounding to nearest has \<open>u = 1 / 2 ^ 53\<close>,
  \<open>\<eta> = 1 / 2 ^ 1075\<close> and \<open>M\<close> the largest double; exact arithmetic has
  \<open>u = \<eta> = 0\<close> and any \<open>M\<close>. \<open>round_up\<close> is a rounding that is never exact: it
  errs by the full relative error on every result.
\<close>

definition rounding_model :: "(real \<Rightarrow> real) \<Rightarrow> real \<Rightarrow> real \<Rightarrow> real \<Rightarrow> bool" where
  "rounding_model r u \<eta> M =
     (0 \<le> u \<and> u \<le> 1 / 100 \<and> 0 \<le> \<eta> \<and> 2 \<le> M
      \<and> (\<forall>x. \<bar>x\<bar> \<le> M \<longrightarrow> \<bar>r x - x\<bar> \<le> u * \<bar>x\<bar> + \<eta>))"

definition round_up :: "real \<Rightarrow> real" where
  "round_up x = x * (1 + 1 / 2 ^ 53)"

text \<open>
  \<^verbatim>\<open>main\<close> after \<^verbatim>\<open>load_data\<close> and before printing. \<^verbatim>\<open>fails_evidence\<close> is the
  \<^verbatim>\<open>any(...)\<close> of lines 68 to 72; the three nested loops run over
  \<^verbatim>\<open>powerset(names)\<close>, \<^verbatim>\<open>powerset(names)\<close> and \<^verbatim>\<open>powerset(names - one_gene)\<close>.
\<close>

definition fails_evidence :: "people \<Rightarrow> string set \<Rightarrow> bool" where
  "fails_evidence people have_trait =
     list_ex (\<lambda>(person, entry).
                trait entry \<noteq> None \<and> trait entry \<noteq> Some (person \<in> have_trait))
       people"

definition gene_loops :: "people \<Rightarrow> string list \<Rightarrow> string set \<Rightarrow> probabilities \<Rightarrow> probabilities" where
  "gene_loops people names have_trait probabilities =
     fold (\<lambda>one_gene probs.
             fold (\<lambda>two_genes probs'.
                     update probs' one_gene two_genes have_trait
                       (joint_probability people one_gene two_genes have_trait))
               (powerset (filter (\<lambda>n. n \<notin> one_gene) names)) probs)
       (powerset names) probabilities"

definition enumerate_assignments :: "people \<Rightarrow> probabilities" where
  "enumerate_assignments people =
     (let probabilities =
            map (\<lambda>(person, _). (person, \<lparr>p_gene = (\<lambda>_. 0), p_trait = (\<lambda>_. 0)\<rparr>)) people;
          names = map fst people
      in fold (\<lambda>have_trait probs.
                 if fails_evidence people have_trait then probs
                 else gene_loops people names have_trait probs)
           (powerset names) probabilities)"

definition heredity_main :: "people \<Rightarrow> py_error + probabilities" where
  "heredity_main people = normalize_probabilities (enumerate_assignments people)"

text \<open>
  The specification's transmission model, in its own words, to compare the source
  with: a parent with gene count 0 passes the harmful allele on with probability
  \<open>\<mu>\<close> = 0.01, with count 1 with probability 0.5, with count 2 with \<open>1 - \<mu>\<close>; the
  gene count of a person is read off the two sets the way the source tests them.
\<close>

definition spec_transmit :: "nat \<Rightarrow> real" where
  "spec_transmit g = (if g = 0 then 0.01 else if g = 1 then 0.5 else 1 - 0.01)"

definition gene_count :: "string option \<Rightarrow> string set \<Rightarrow> string set \<Rightarrow> nat" where
  "gene_count parent one_gene two_genes =
     (if is_in parent one_gene then 1 else if is_in parent two_genes then 2 else 0)"

definition spec_gene_factor :: "nat \<Rightarrow> real \<Rightarrow> real \<Rightarrow> real" where
  "spec_gene_factor copies a b =
     (if copies = 2 then a * b
      else if copies = 1 then a * (1 - b) + (1 - a) * b
      else (1 - a) * (1 - b))"

text \<open>Families used below: one person without parents, and a child with both parents.\<close>

definition family_solo :: people where
  "family_solo =
     [(''Harry'', \<lparr>name = ''Harry'', mother = None, father = None, trait = None\<rparr>)]"

definition family_three :: people where
  "family_three =
     [(''Harry'', \<lparr>name = ''Harry'', mother = Some ''Lily'', father = Some ''James'', trait = None\<rparr>),
      (''James'', \<lparr>name = ''James'', mother = None, father = None, trait = Some True\<rparr>),
      (''Lily'', \<lparr>name = ''Lily'', mother = None, father = None, trait = Some False\<rparr>)]"

definition harry :: person where
  "harry = \<lparr>name = ''Harry'', mother = Some ''Lily'', father = Some ''James'', trait = None\<rparr>"

definition zero_entry :: prob_entry where
  "zero_entry = \<lparr>p_gene = (\<lambda>_. 0), p_trait = (\<lambda>_. 0)\<rparr>"

definition sample_entry :: prob_entry where
  "sample_entry = \<lparr>p_gene = (\<lambda>i. if i = 0 then 3 else if i = 1 then 1 else 0),
                    p_trait = (\<lambda>b. if b then 1 else 3)\<rparr>"

text \<open>
  Invariants of the enumeration in \<open>enumerate_assignments\<close>: no bucket is negative,
  a person with an observed trait has nothing in the bucket of the other value, and,
  once an assignment has been added, both sums of every person are positive.
\<close>

definition nonneg_entry :: "prob_entry \<Rightarrow> bool" where
  "nonneg_entry d = (0 \<le> p_gene d 0 \<and> 0 \<le> p_gene d 1 \<and> 0 \<le> p_gene d 2
     \<and> 0 \<le> p_trait d True \<and> 0 \<le> p_trait d False)"

text \<open>
  A table entry the rounded \<^verbatim>\<open>normalize\<close> treats without overflow or underflow of
  its sums: no bucket is negative, both sums are positive, at least the smallest
  normal float (\<open>\<eta> / u\<close>) and at most half the largest one.
\<close>

definition in_range :: "real \<Rightarrow> real \<Rightarrow> real \<Rightarrow> prob_entry \<Rightarrow> bool" where
  "in_range u \<eta> M d =
     (nonneg_entry d \<and> 0 < gene_sum d \<and> 0 < trait_sum d
      \<and> \<eta> \<le> u * gene_sum d \<and> \<eta> \<le> u * trait_sum d
      \<and> 2 * gene_sum d \<le> M \<and> 2 * trait_sum d \<le> M)"

definition positive_sums :: "prob_entry \<Rightarrow> bool" where
  "positive_sums d = (0 < gene_sum d \<and> 0 < trait_sum d)"

definition keeps_evidence :: "people \<Rightarrow> string \<Rightarrow> prob_entry \<Rightarrow> bool" where
  "keeps_evidence people person d =
     (\<forall>entry t. (person, entry) \<in> set people \<and> trait entry = Some t \<longrightarrow> p_trait d (\<not> t) = 0)"

definition all_consistent :: "people \<Rightarrow> probabilities \<Rightarrow> bool" where
  "all_consistent people probs = (\<forall>(person, d) \<in> set probs. nonneg_entry d \<and> keeps_evidence people person d)"

definition all_positive :: "probabilities \<Rightarrow> bool" where
  "all_positive probs = (\<forall>(person, d) \<in> set probs. positive_sums d)"

section \<open>PageRank (\<^verbatim>\<open>src/2_uncertainty/pagerank/pagerank.py\<close>)\<close>

text \<open>
  The corpus maps a page to the set of pages it links to; a distribution maps a page
  to a number. Both are dictionaries in insertion order, the distribution's keys being
  the corpus's. \<^verbatim>\<open>d[k]\<close> raises \<^verbatim>\<open>KeyError\<close> for a key that is not there.
\<close>

type_synonym page = string

type_synonym corpus = "(page \<times> page set) list"

type_synonym distribution = "(page \<times> real) list"

definition getitem :: "('k \<times> 'v) list \<Rightarrow> 'k \<Rightarrow> py_error + 'v" where
  "getitem d k = (case map_of d k of None \<Rightarrow> Inl KeyError | Some v \<Rightarrow> Inr v)"

text \<open>
  \<^verbatim>\<open>transition_model\<close>. The loop \<^verbatim>\<open>for link in corpus[page]\<close> adds
  \<^verbatim>\<open>damping_factor / links\<close> once to every linked page, in whatever order the set is
  walked, and raises \<^verbatim>\<open>KeyError\<close> at a link that is not a page of the corpus.
\<close>

definition transition_model :: "corpus \<Rightarrow> page \<Rightarrow> real \<Rightarrow> py_error + distribution" where
  "transition_model corpus page damping_factor =
     (case getitem corpus page of
        Inl e \<Rightarrow> Inl e
      | Inr out \<Rightarrow>
          (let links = card out in
           if links \<noteq> 0 then
             (let distribution =
                    map (\<lambda>(link, _). (link, (1 - damping_factor) / real (length corpus))) corpus
              in if out \<subseteq> set (map fst distribution)
                 then Inr (map (\<lambda>(link, v).
                             (link, if link \<in> out then v + damping_factor / real links else v))
                           distribution)
                 else Inl KeyError)
           else Inr (map (\<lambda>(link, _). (link, 1 / real (length corpus))) corpus)))"

text \<open>
  The random source is a sequence \<open>rnd\<close> of numbers in \<open>[0, 1)\<close>, one per draw.
  \<^verbatim>\<open>random.choice(seq)\<close> picks the element at a uniform index (\<^verbatim>\<open>IndexError\<close> on an
  empty sequence). \<^verbatim>\<open>random.choices(population, weights, k=1)[0]\<close> accumulates the
  weights, raises \<^verbatim>\<open>ValueError\<close> when their total is not positive, and returns the
  element at \<^verbatim>\<open>bisect(cum_weights, random() * total, 0, len - 1)\<close>: the first index
  whose cumulative weight exceeds the scaled draw, the last index if none does.
  \<open>bisect\<close> below scans from the left; Python searches by halving, which finds the
  same index when the cumulative weights are sorted, that is when no weight is
  negative (a damping factor between 0 and 1).
\<close>

fun accumulate :: "real \<Rightarrow> real list \<Rightarrow> real list" where
  "accumulate s [] = []"
| "accumulate s (w # ws) = (s + w) # accumulate (s + w) ws"

fun bisect :: "real list \<Rightarrow> real \<Rightarrow> nat" where
  "bisect [] x = 0"
| "bisect [c] x = 0"
| "bisect (c # cs) x = (if x < c then 0 else Suc (bisect cs x))"

definition random_choice :: "real \<Rightarrow> 'a list \<Rightarrow> py_error + 'a" where
  "random_choice u xs =
     (let k = nat \<lfloor>u * real (length xs)\<rfloor> in
      if k < length xs then Inr (xs ! k) else Inl IndexError)"

definition random_choices :: "real \<Rightarrow> 'a list \<Rightarrow> real list \<Rightarrow> py_error + 'a" where
  "random_choices u population weights =
     (if length weights \<noteq> length population then Inl ValueError
      else if population = [] then Inl IndexError
      else
        (let cum_weights = accumulate 0 weights; total = last cum_weights in
         if total \<le> 0 then Inl ValueError
         else Inr (population ! bisect cum_weights (u * total))))"

text \<open>
  \<^verbatim>\<open>sample_pagerank\<close>. Line 104 replaces every entry by the running average of the
  transition distributions seen so far; line 106 draws the next page with the entries
  of \<^verbatim>\<open>distribution\<close> as weights. The loop runs for \<open>i = 1, ..., n - 1\<close>.
\<close>

fun running_average :: "nat \<Rightarrow> distribution \<Rightarrow> distribution \<Rightarrow> py_error + distribution" where
  "running_average i [] current_distribution = Inr []"
| "running_average i ((page, v) # rest) current_distribution =
     (case getitem current_distribution page of
        Inl e \<Rightarrow> Inl e
      | Inr c \<Rightarrow>
          (case running_average i rest current_distribution of
             Inl e \<Rightarrow> Inl e
           | Inr rest' \<Rightarrow> Inr ((page, (real (i - 1) * v + c) / real i) # rest')))"

fun sample_loop ::
  "corpus \<Rightarrow> real \<Rightarrow> (nat \<Rightarrow> real) \<Rightarrow> nat list \<Rightarrow> distribution \<Rightarrow> page \<Rightarrow> py_error + distribution" where
  "sample_loop corpus damping_factor rnd [] distribution page = Inr distribution"
| "sample_loop corpus damping_factor rnd (i # is) distribution page =
     (case transition_model corpus page damping_factor of
        Inl e \<Rightarrow> Inl e
      | Inr current_distribution \<Rightarrow>
          (case running_average i distribution current_distribution of
             Inl e \<Rightarrow> Inl e
           | Inr distribution' \<Rightarrow>
               (case random_choices (rnd i) (map fst distribution') (map snd distribution') of
                  Inl e \<Rightarrow> Inl e
                | Inr page' \<Rightarrow> sample_loop corpus damping_factor rnd is distribution' page')))"

definition sample_pagerank :: "corpus \<Rightarrow> real \<Rightarrow> nat \<Rightarrow> (nat \<Rightarrow> real) \<Rightarrow> py_error + distribution" where
  "sample_pagerank corpus damping_factor n rnd =
     (let distribution = map (\<lambda>(page, _). (page, 0)) corpus in
      case random_choice (rnd 0) (map fst corpus) of
        Inl e \<Rightarrow> Inl e
      | Inr page \<Rightarrow> sample_loop corpus damping_factor rnd [1 ..< n] distribution page)"

text \<open>
  \<^verbatim>\<open>iterative_sum(corpus, distribution, page)\<close>: the loop variable is named
  \<^verbatim>\<open>page\<close> too, so the parameter is never read. The loop adds
  \<^verbatim>\<open>distribution[page] / len(corpus[page])\<close> for every page of the distribution;
  the division raises \<^verbatim>\<open>ZeroDivisionError\<close> at a page without links.
\<close>

fun iterative_sum :: "corpus \<Rightarrow> distribution \<Rightarrow> page \<Rightarrow> real \<Rightarrow> py_error + real" where
  "iterative_sum corpus [] page0 s = Inr s"
| "iterative_sum corpus ((page, r) # rest) page0 s =
     (case getitem corpus page of
        Inl e \<Rightarrow> Inl e
      | Inr out \<Rightarrow>
          if card out = 0 then Inl ZeroDivisionError
          else iterative_sum corpus rest page0 (s + r / real (card out)))"

text \<open>
  One pass of the \<^verbatim>\<open>while\<close> loop of \<^verbatim>\<open>iterate_pagerank\<close>: \<^verbatim>\<open>distribution\<close> is
  the copy of the ranks taken at the start of the pass, the result is the new ranks
  with the flag \<^verbatim>\<open>change\<close>.
\<close>

fun update_pass ::
  "corpus \<Rightarrow> real \<Rightarrow> distribution \<Rightarrow> page list \<Rightarrow> bool \<Rightarrow> py_error + (distribution \<times> bool)" where
  "update_pass corpus d distribution [] change = Inr ([], change)"
| "update_pass corpus d distribution (page # pages) change =
     (case iterative_sum corpus distribution page 0 of
        Inl e \<Rightarrow> Inl e
      | Inr s \<Rightarrow>
          (let new_rank = (1 - d) / real (length corpus) + d * s in
           case getitem distribution page of
             Inl e \<Rightarrow> Inl e
           | Inr old_rank \<Rightarrow>
               (case update_pass corpus d distribution pages
                       (change \<or> \<bar>old_rank - new_rank\<bar> > 0.001) of
                  Inl e \<Rightarrow> Inl e
                | Inr (ranks, change') \<Rightarrow> Inr ((page, new_rank) # ranks, change'))))"

definition initial_ranks :: "corpus \<Rightarrow> distribution" where
  "initial_ranks corpus = map (\<lambda>(page, _). (page, 1 / real (length corpus))) corpus"

text \<open>
  The \<^verbatim>\<open>while change\<close> loop may run forever; \<open>fuel\<close> bounds the number of passes,
  and \<open>None\<close> is the loop that has not stopped within it. The ranks are real
  numbers here: where they grow without bound the loop of the model never stops, while
  Python's floats overflow to infinity and end the loop.
\<close>

fun iterate_loop :: "nat \<Rightarrow> corpus \<Rightarrow> real \<Rightarrow> distribution \<Rightarrow> (py_error + distribution) option" where
  "iterate_loop 0 corpus d ranks = None"
| "iterate_loop (Suc fuel) corpus d ranks =
     (case update_pass corpus d ranks (map fst corpus) False of
        Inl e \<Rightarrow> Some (Inl e)
      | Inr (ranks', change) \<Rightarrow>
          if change then iterate_loop fuel corpus d ranks' else Some (Inr ranks'))"

definition iterate_pagerank :: "nat \<Rightarrow> corpus \<Rightarrow> real \<Rightarrow> (py_error + distribution) option" where
  "iterate_pagerank fuel corpus damping_factor =
     iterate_loop fuel corpus damping_factor (initial_ranks corpus)"

text \<open>
  The specification's update, in its own words, to compare the source with:
  \<open>new_rank(p) = (1 - d) / N + d * (sum over the pages q with p in L(q) of rank(q) / |L(q)|)\<close>,
  a page \<open>q\<close> without links giving \<open>rank(q) / N\<close> to every page. And the
  specification's sampling estimate: the share of the \<open>n\<close> visits that landed on \<open>p\<close>.
\<close>

definition rank_of :: "distribution \<Rightarrow> page \<Rightarrow> real" where
  "rank_of ranks q = (case map_of ranks q of None \<Rightarrow> 0 | Some r \<Rightarrow> r)"

definition spec_new_rank :: "corpus \<Rightarrow> real \<Rightarrow> distribution \<Rightarrow> page \<Rightarrow> real" where
  "spec_new_rank corpus d ranks p =
     (1 - d) / real (length corpus)
     + d * sum_list (map (\<lambda>(q, out).
                            if card out = 0 then rank_of ranks q / real (length corpus)
                            else if p \<in> out then rank_of ranks q / real (card out)
                            else 0)
                      corpus)"

definition spec_visit_fraction :: "page list \<Rightarrow> nat \<Rightarrow> page \<Rightarrow> real" where
  "spec_visit_fraction visits n p = real (count_list visits p) / real n"

text \<open>Two corpora: two pages that link to each other, and one with a dangling page.\<close>

definition corpus_pair :: corpus where
  "corpus_pair = [(''1.html'', {''2.html''}), (''2.html'', {''1.html''})]"

definition corpus_dangling :: corpus where
  "corpus_dangling = [(''1.html'', {''2.html''}), (''2.html'', {})]"

section \<open>Tic-tac-toe: theorems\<close>

lemma terminal_iff_full: "terminal b = spec_full b"
proof (induction b)
  case Nil
  show ?case by (simp add: spec_full_def)
next
  case (Cons row rows)
  have r: "row_terminal row = list_all (\<lambda>c. c \<noteq> EMPTY) row"
    by (induction row) auto
  from Cons r show ?case by (simp add: spec_full_def)
qed

text \<open>
  C6. Claim: \<^verbatim>\<open>terminal(board)\<close> is true iff some player has a complete row, column
  or diagonal, or no empty cell remains; in particular it is true on a non-full board
  with a winning line. The source looks for empty cells only: on the board whose top
  row is three X, with four cells still empty, the specification's predicate holds
  and \<^verbatim>\<open>terminal\<close> returns \<^verbatim>\<open>False\<close>.
\<close>

theorem terminal_misses_early_win:
  "spec_wins board_early_win X_mark \<and> spec_terminal board_early_win
   \<and> terminal board_early_win = False"
  by (simp add: spec_terminal_def spec_wins_def spec_lines_def board_early_win_def EMPTY_def)

text \<open>
  C7. Claim: \<^verbatim>\<open>result\<close> raises GameOver on a terminal board, InvalidAction on an
  occupied or out-of-bounds cell, and otherwise returns the board with the current
  player's mark at the action; no other exception escapes. In the source each of the
  three paths ends in \<^verbatim>\<open>TypeError\<close>: the two \<^verbatim>\<open>raise\<close> statements instantiate a
  class whose constructor needs two arguments, and the legal move subscripts a list
  with a tuple.
\<close>

theorem result_raises_TypeError:
  "result initial_state (0, 0) = Inl TypeError
   \<and> result board_full (0, 0) = Inl TypeError
   \<and> result initial_state (0, 3) = Inl TypeError
   \<and> result board_early_win (0, 0) = Inl TypeError"
  by (simp add: result_def actions_def cell_at_def raise_class_def init_params_def
      list_setitem_tuple_def initial_state_def board_full_def board_early_win_def EMPTY_def)

section \<open>Knights and knaves: theorems\<close>

text \<open>
  The enumeration decides entailment: \<open>model_check\<close> holds exactly when every model
  of the knowledge base is a model of the query.
\<close>

lemma evaluate_cong:
  "(\<And>x. x \<in> set (symbols s) \<Longrightarrow> m x = m' x) \<Longrightarrow> evaluate s m = evaluate s m'"
proof (induction s)
  case (And ss)
  then show ?case by (simp add: list_all_iff) blast
next
  case (Or ss)
  then show ?case by (simp add: list_ex_iff) blast
qed auto

lemma all_models_cover: "\<exists>m' \<in> set (all_models ss). \<forall>x \<in> set ss. m' x = m x"
proof (induction ss)
  case Nil
  show ?case by simp
next
  case (Cons s ss)
  then obtain m0 where m0: "m0 \<in> set (all_models ss)" "\<forall>x \<in> set ss. m0 x = m x"
    by blast
  show ?case
  proof (cases "m s")
    case True
    with m0 have "m0(s := True) \<in> set (all_models (s # ss))"
      "\<forall>x \<in> set (s # ss). (m0(s := True)) x = m x"
      by auto
    then show ?thesis by blast
  next
    case False
    with m0 have "m0(s := False) \<in> set (all_models (s # ss))"
      "\<forall>x \<in> set (s # ss). (m0(s := False)) x = m x"
      by auto
    then show ?thesis by blast
  qed
qed

lemma model_check_iff:
  "model_check k q \<longleftrightarrow> (\<forall>m. evaluate k m \<longrightarrow> evaluate q m)"
proof
  assume mc: "model_check k q"
  show "\<forall>m. evaluate k m \<longrightarrow> evaluate q m"
  proof (intro allI impI)
    fix m
    assume km: "evaluate k m"
    obtain m' where m': "m' \<in> set (all_models (remdups (symbols k @ symbols q)))"
      "\<forall>x \<in> set (remdups (symbols k @ symbols q)). m' x = m x"
      using all_models_cover by blast
    have "evaluate k m' = evaluate k m" using m'(2) by (intro evaluate_cong) auto
    moreover have "evaluate q m' = evaluate q m" using m'(2) by (intro evaluate_cong) auto
    moreover have "evaluate k m' \<longrightarrow> evaluate q m'"
      using mc m'(1) by (auto simp: model_check_def list_all_iff split: if_splits)
    ultimately show "evaluate q m" using km by simp
  qed
next
  assume "\<forall>m. evaluate k m \<longrightarrow> evaluate q m"
  then show "model_check k q" by (simp add: model_check_def list_all_iff)
qed

text \<open>Puzzle 2 has one solution: A is a knave and B is a knight.\<close>

lemma knowledge2_models:
  "evaluate knowledge2 m \<longleftrightarrow>
     (m ''A is a Knave'' \<and> \<not> m ''A is a Knight'' \<and> m ''B is a Knight'' \<and> \<not> m ''B is a Knave'')"
  by (auto simp: knowledge2_def AKnight_def AKnave_def BKnight_def BKnave_def)

text \<open>
  C10. Claim: under the specification's evaluation and entailment, the knowledge base
  of Puzzle 2 entails \<open>AKnave\<close> and \<open>BKnight\<close>, and entails neither \<open>AKnight\<close> nor
  \<open>BKnave\<close>. The two entailments that fail show that the knowledge base has a model.
\<close>

theorem knowledge2_entailments:
  "model_check knowledge2 AKnave \<and> model_check knowledge2 BKnight
   \<and> \<not> model_check knowledge2 AKnight \<and> \<not> model_check knowledge2 BKnave"
proof -
  let ?m = "(\<lambda>_. False)(''A is a Knave'' := True, ''B is a Knight'' := True)"
  have sat: "evaluate knowledge2 ?m" by (simp add: knowledge2_models)
  have "\<not> evaluate AKnight ?m" "\<not> evaluate BKnave ?m"
    by (simp_all add: AKnight_def BKnave_def)
  with sat have "\<not> model_check knowledge2 AKnight" "\<not> model_check knowledge2 BKnave"
    unfolding model_check_iff by blast+
  moreover have "model_check knowledge2 AKnave" "model_check knowledge2 BKnight"
    unfolding model_check_iff by (simp_all add: knowledge2_models AKnave_def BKnight_def)
  ultimately show ?thesis by simp
qed

section \<open>Heredity: theorems\<close>

text \<open>
  C1. Claim: \<^verbatim>\<open>joint_probability\<close> returns the product over all people of
  \<open>P(gene) * P(trait | gene)\<close>, the trait factor applied once, from the row of the
  person's own gene count. In the source line 288 multiplies every person by the row of
  gene count 0 as well: for one person without parents, with one copy and the trait,
  it returns \<open>0.03 * 0.56 * 0.01\<close> where the claim gives \<open>0.03 * 0.56\<close>.
\<close>

theorem joint_probability_trait_twice:
  "joint_probability family_solo {''Harry''} {} {''Harry''} = 0.03 * 0.56 * 0.01
   \<and> PROBS_gene 1 * PROBS_trait 1 True = 0.03 * 0.56
   \<and> joint_probability family_solo {''Harry''} {} {''Harry''}
       \<noteq> PROBS_gene 1 * PROBS_trait 1 True"
  by (simp add: joint_probability_def person_probability_def gene_probability_def
      family_solo_def PROBS_gene_def PROBS_trait_def)

text \<open>
  C2. Claim: for a person with two parents the gene factor is \<open>a * b\<close> with two
  copies, \<open>a * (1 - b) + (1 - a) * b\<close> with one and \<open>(1 - a) * (1 - b)\<close> with
  none, \<open>a\<close> and \<open>b\<close> being the parents' transmission probabilities. The
  \<^verbatim>\<open>else\<close> branch of the source (lines 273 to 285) repeats the factors of the
  two-copies branch: for a child without copies whose parents have none either it
  computes \<open>0.01 * 0.01\<close> where the claim gives \<open>0.99 * 0.99\<close>.
\<close>

theorem gene_probability_no_copies:
  "gene_probability harry ''Harry'' {} {} = 0.01 * 0.01
   \<and> spec_gene_factor 0 (spec_transmit (gene_count (mother harry) {} {}))
         (spec_transmit (gene_count (father harry) {} {})) = 0.99 * 0.99"
  by (simp add: gene_probability_def harry_def is_in_def PROBS_mutation_def
      spec_gene_factor_def spec_transmit_def gene_count_def)

text \<open>
  What the three branches compute for a person with a recorded parent, in the
  specification's terms: the first two are the specification's, the third is the
  product \<open>a * b\<close> again.
\<close>

lemma spec_transmit_gene_count:
  "spec_transmit (gene_count parent one_gene two_genes) =
     (if is_in parent one_gene then 0.5
      else if is_in parent two_genes then 1 - PROBS_mutation
      else PROBS_mutation)"
  by (simp add: spec_transmit_def gene_count_def PROBS_mutation_def)

lemma gene_probability_branches:
  assumes "\<not> (mother entry = None \<and> father entry = None)"
  shows "gene_probability entry person one_gene two_genes =
     (let a = spec_transmit (gene_count (mother entry) one_gene two_genes);
          b = spec_transmit (gene_count (father entry) one_gene two_genes)
      in if person \<in> one_gene then spec_gene_factor 1 a b
         else if person \<in> two_genes then spec_gene_factor 2 a b
         else a * b)"
proof -
  from assms have np: "(mother entry = None \<and> father entry = None) = False"
    by simp
  have f1: "spec_gene_factor 1 a b = a * (1 - b) + (1 - a) * b" for a b
    by (simp add: spec_gene_factor_def)
  have f2: "spec_gene_factor 2 a b = a * b" for a b
    by (simp add: spec_gene_factor_def)
  show ?thesis
    unfolding gene_probability_def Let_def np if_False f1 f2 spec_transmit_gene_count
    by simp
qed

text \<open>Every joint probability is positive: each factor of the product is.\<close>

lemma person_probability_pos: "0 < person_probability entry person og tg ht"
  by (simp add: person_probability_def gene_probability_def Let_def PROBS_gene_def
      PROBS_trait_def PROBS_mutation_def)

lemma fold_product_pos:
  fixes c :: real
  assumes "0 < c"
  shows "0 < fold (\<lambda>(person, entry) acc. acc * person_probability entry person og tg ht) xs c"
  using assms
proof (induction xs arbitrary: c)
  case Nil
  then show ?case by simp
next
  case (Cons x xs)
  obtain person entry where x: "x = (person, entry)" by (cases x)
  have "0 < c * person_probability entry person og tg ht"
    using Cons.prems person_probability_pos by (simp add: mult_pos_pos)
  then show ?case using Cons.IH x by simp
qed

lemma joint_probability_pos: "0 < joint_probability people og tg ht"
  unfolding joint_probability_def by (rule fold_product_pos) simp

lemma update_entry_gene:
  "p_gene (update_entry person d og tg ht p) i =
     (if i = (if person \<in> og then 1 else if person \<in> tg then 2 else 0)
      then p_gene d i + p else p_gene d i)"
  by (simp add: update_entry_def Let_def)

lemma update_entry_trait:
  "p_trait (update_entry person d og tg ht p) b =
     (if b = (person \<in> ht) then p_trait d b + p else p_trait d b)"
  by (simp add: update_entry_def Let_def)

lemma update_entry_nonneg:
  assumes "nonneg_entry d" "0 < p"
  shows "nonneg_entry (update_entry person d og tg ht p)"
  using assms unfolding nonneg_entry_def update_entry_gene update_entry_trait
  by (simp add: add_nonneg_nonneg less_imp_le)

lemma update_entry_positive:
  assumes "nonneg_entry d" "0 < p"
  shows "positive_sums (update_entry person d og tg ht p)"
proof -
  have g: "gene_sum (update_entry person d og tg ht p) = gene_sum d + p"
    by (simp add: gene_sum_def update_entry_gene)
  have t: "trait_sum (update_entry person d og tg ht p) = trait_sum d + p"
    by (simp add: trait_sum_def update_entry_trait)
  have "0 \<le> gene_sum d" "0 \<le> trait_sum d"
    using assms(1) by (simp_all add: nonneg_entry_def gene_sum_def trait_sum_def)
  with assms(2) show ?thesis
    unfolding positive_sums_def g t by (simp add: add_nonneg_pos)
qed

lemma update_entry_keeps:
  assumes "keeps_evidence people person d" "\<not> fails_evidence people ht"
  shows "keeps_evidence people person (update_entry person d og tg ht p)"
  unfolding keeps_evidence_def
proof (intro allI impI)
  fix entry t
  assume h: "(person, entry) \<in> set people \<and> trait entry = Some t"
  with assms(2) have "(person \<in> ht) = t"
    by (auto simp: fails_evidence_def list_ex_iff)
  moreover from assms(1) h have "p_trait d (\<not> t) = 0" by (auto simp: keeps_evidence_def)
  ultimately show "p_trait (update_entry person d og tg ht p) (\<not> t) = 0"
    by (simp add: update_entry_trait)
qed

lemma update_consistent:
  assumes "all_consistent people probs" "0 < p" "\<not> fails_evidence people ht"
  shows "all_consistent people (update probs og tg ht p) \<and> all_positive (update probs og tg ht p)"
  using assms
  by (auto simp: all_consistent_def all_positive_def update_def update_entry_nonneg update_entry_positive
      update_entry_keeps)

lemma two_genes_loop:
  assumes "all_consistent people probs" "\<not> fails_evidence people ht"
  shows "all_consistent people (fold (\<lambda>tg pr. update pr og tg ht (joint_probability people og tg ht)) tgs probs)
     \<and> (all_positive probs \<or> tgs \<noteq> [] \<longrightarrow>
        all_positive (fold (\<lambda>tg pr. update pr og tg ht (joint_probability people og tg ht)) tgs probs))"
  using assms(1)
proof (induction tgs arbitrary: probs)
  case Nil
  then show ?case by simp
next
  case (Cons tg tgs)
  have "all_consistent people (update probs og tg ht (joint_probability people og tg ht))
      \<and> all_positive (update probs og tg ht (joint_probability people og tg ht))"
    using update_consistent [OF Cons.prems joint_probability_pos assms(2)] .
  with Cons.IH show ?case by simp
qed

lemma powerset_nonempty: "powerset xs \<noteq> []"
proof -
  have "[] \<in> set (combinations xs 0)" by simp
  moreover have "0 \<in> set [0 ..< length xs + 1]" by simp
  ultimately have "[] \<in> set (concat (map (combinations xs) [0 ..< length xs + 1]))"
    unfolding set_concat set_map by blast
  then have "set [] \<in> set (powerset xs)"
    unfolding powerset_def set_map by (rule imageI)
  then show ?thesis by auto
qed

lemma one_gene_loop:
  assumes "all_consistent people probs" "\<not> fails_evidence people ht"
  shows "all_consistent people
           (fold (\<lambda>og pr. fold (\<lambda>tg pr'. update pr' og tg ht (joint_probability people og tg ht))
                             (powerset (filter (\<lambda>n. n \<notin> og) names)) pr) ogs probs)
     \<and> (all_positive probs \<or> ogs \<noteq> [] \<longrightarrow>
        all_positive
           (fold (\<lambda>og pr. fold (\<lambda>tg pr'. update pr' og tg ht (joint_probability people og tg ht))
                             (powerset (filter (\<lambda>n. n \<notin> og) names)) pr) ogs probs))"
  using assms(1)
proof (induction ogs arbitrary: probs)
  case Nil
  then show ?case by simp
next
  case (Cons og ogs)
  let ?inner = "fold (\<lambda>tg pr'. update pr' og tg ht (joint_probability people og tg ht))
                  (powerset (filter (\<lambda>n. n \<notin> og) names)) probs"
  have "all_consistent people ?inner \<and> all_positive ?inner"
    using two_genes_loop [OF Cons.prems assms(2), of og "powerset (filter (\<lambda>n. n \<notin> og) names)"]
      powerset_nonempty by blast
  with Cons.IH [of ?inner] show ?case by simp
qed

lemma gene_loops_consistent:
  assumes "all_consistent people probs" "\<not> fails_evidence people ht"
  shows "all_consistent people (gene_loops people names ht probs) \<and> all_positive (gene_loops people names ht probs)"
  unfolding gene_loops_def
  using one_gene_loop [OF assms, of names "powerset names"] powerset_nonempty by blast

lemma have_trait_loop:
  assumes "all_consistent people probs"
  shows "all_consistent people
           (fold (\<lambda>ht pr. if fails_evidence people ht then pr else gene_loops people names ht pr)
              hts probs)
     \<and> (all_positive probs \<or> list_ex (\<lambda>ht. \<not> fails_evidence people ht) hts \<longrightarrow>
        all_positive
           (fold (\<lambda>ht pr. if fails_evidence people ht then pr else gene_loops people names ht pr)
              hts probs))"
  using assms
proof (induction hts arbitrary: probs)
  case Nil
  then show ?case by simp
next
  case (Cons ht hts)
  show ?case
  proof (cases "fails_evidence people ht")
    case True
    with Cons.IH [OF Cons.prems] show ?thesis by simp
  next
    case False
    have "all_consistent people (gene_loops people names ht probs) \<and> all_positive (gene_loops people names ht probs)"
      using gene_loops_consistent [OF Cons.prems False] .
    with Cons.IH [of "gene_loops people names ht probs"] False show ?thesis by simp
  qed
qed

lemma enumerate_consistent:
  "all_consistent people (enumerate_assignments people)"
  "list_ex (\<lambda>ht. \<not> fails_evidence people ht) (powerset (map fst people)) \<Longrightarrow> all_positive (enumerate_assignments people)"
proof -
  let ?init = "map (\<lambda>(person, _). (person, \<lparr>p_gene = (\<lambda>_. 0), p_trait = (\<lambda>_. 0)\<rparr>)) people"
  have g0: "all_consistent people ?init"
    by (auto simp: all_consistent_def nonneg_entry_def keeps_evidence_def)
  from have_trait_loop [OF g0, of "map fst people" "powerset (map fst people)"]
  show "all_consistent people (enumerate_assignments people)"
    "list_ex (\<lambda>ht. \<not> fails_evidence people ht) (powerset (map fst people)) \<Longrightarrow> all_positive (enumerate_assignments people)"
    by (simp_all add: enumerate_assignments_def Let_def)
qed

text \<open>\<^verbatim>\<open>normalize\<close>: the two outcomes.\<close>

lemma normalize_ok:
  assumes "\<forall>(person, d) \<in> set probs. gene_sum d \<noteq> 0 \<and> trait_sum d \<noteq> 0"
  shows "normalize_probabilities probs = Inr (map (\<lambda>(person, d). (person, normalize_entry d)) probs)"
  using assms
proof (induction probs)
  case Nil
  show ?case by simp
next
  case (Cons x probs)
  obtain person d where x: "x = (person, d)" by (cases x)
  from Cons.prems x have nz: "gene_sum d \<noteq> 0" "trait_sum d \<noteq> 0" by auto
  from Cons have "normalize_probabilities probs = Inr (map (\<lambda>(person, d). (person, normalize_entry d)) probs)"
    by simp
  with nz x show ?case by simp
qed

lemma normalize_zero:
  assumes "\<exists>(person, d) \<in> set probs. gene_sum d = 0 \<or> trait_sum d = 0"
  shows "normalize_probabilities probs = Inl ZeroDivisionError"
  using assms
proof (induction probs)
  case Nil
  then show ?case by simp
next
  case (Cons x probs)
  obtain person d where x: "x = (person, d)" by (cases x)
  show ?case
  proof (cases "gene_sum d = 0 \<or> trait_sum d = 0")
    case True
    with x show ?thesis by auto
  next
    case False
    with Cons.prems x have "\<exists>(person, d) \<in> set probs. gene_sum d = 0 \<or> trait_sum d = 0"
      by auto
    with Cons.IH have "normalize_probabilities probs = Inl ZeroDivisionError" by simp
    with x show ?thesis by simp
  qed
qed

lemma normalize_entry_sums:
  assumes "gene_sum d \<noteq> 0" "trait_sum d \<noteq> 0"
  shows "gene_sum (normalize_entry d) = 1" and "trait_sum (normalize_entry d) = 1"
proof -
  have "gene_sum (normalize_entry d)
        = p_gene d 0 / gene_sum d + p_gene d 1 / gene_sum d + p_gene d 2 / gene_sum d"
    unfolding normalize_entry_def by (simp add: gene_sum_def [of "\<lparr>p_gene = _, p_trait = _\<rparr>"])
  also have "\<dots> = (p_gene d 0 + p_gene d 1 + p_gene d 2) / gene_sum d"
    by (simp only: add_divide_distrib)
  also have "\<dots> = gene_sum d / gene_sum d"
    by (simp add: gene_sum_def)
  finally show "gene_sum (normalize_entry d) = 1" using assms(1) by simp
  have "trait_sum (normalize_entry d)
        = p_trait d True / trait_sum d + p_trait d False / trait_sum d"
    unfolding normalize_entry_def by (simp add: trait_sum_def [of "\<lparr>p_gene = _, p_trait = _\<rparr>"])
  also have "\<dots> = (p_trait d True + p_trait d False) / trait_sum d"
    by (simp only: add_divide_distrib)
  also have "\<dots> = trait_sum d / trait_sum d"
    by (simp add: trait_sum_def)
  finally show "trait_sum (normalize_entry d) = 1" using assms(2) by simp
qed

lemma update_names: "map fst (update probs og tg ht p) = map fst probs"
  by (simp add: update_def comp_def case_prod_unfold)

lemma fold_names:
  assumes "\<And>x pr. map fst (f x pr) = map fst pr"
  shows "map fst (fold f xs pr) = map fst pr"
  using assms by (induction xs arbitrary: pr) simp_all

lemma enumerate_names: "map fst (enumerate_assignments people) = map fst people"
proof -
  have inner: "map fst (gene_loops people names ht pr) = map fst pr" for names ht pr
    unfolding gene_loops_def
    by (rule fold_names, rule fold_names, rule update_names)
  have "map fst (fold (\<lambda>have_trait probs.
                 if fails_evidence people have_trait then probs
                 else gene_loops people names have_trait probs) hts pr) = map fst pr" for names hts pr
    by (rule fold_names) (simp add: inner)
  then show ?thesis
    by (simp add: enumerate_assignments_def Let_def comp_def case_prod_unfold)
qed

text \<open>
  The enumeration always meets a consistent set when the names are distinct: the set of
  the people observed with the trait is one of the subsets \<^verbatim>\<open>powerset\<close> lists.
\<close>

lemma filter_in_combinations: "filter P xs \<in> set (combinations xs (length (filter P xs)))"
proof (induction xs)
  case Nil
  show ?case by simp
next
  case (Cons x xs)
  show ?case
  proof (cases "P x")
    case True
    with Cons show ?thesis by simp
  next
    case False
    show ?thesis
    proof (cases "length (filter P xs)")
      case 0
      with False show ?thesis by simp
    next
      case (Suc k)
      with False Cons show ?thesis by simp
    qed
  qed
qed

lemma filter_in_powerset: "set (filter P xs) \<in> set (powerset xs)"
proof -
  have "length (filter P xs) \<in> set [0 ..< length xs + 1]"
    unfolding set_upt atLeastLessThan_iff using length_filter_le [of P xs] by arith
  with filter_in_combinations [of P xs]
  have "filter P xs \<in> set (concat (map (combinations xs) [0 ..< length xs + 1]))"
    unfolding set_concat set_map by blast
  then show ?thesis
    unfolding powerset_def set_map by (rule imageI)
qed

lemma consistent_assignment_exists:
  assumes "distinct (map fst people)"
  shows "list_ex (\<lambda>have_trait. \<not> fails_evidence people have_trait) (powerset (map fst people))"
proof -
  define P where "P = (\<lambda>n. \<exists>entry. (n, entry) \<in> set people \<and> trait entry = Some True)"
  define S where "S = set (filter P (map fst people))"
  have mem: "(person \<in> S) = t"
    if pe: "(person, entry) \<in> set people" and t: "trait entry = Some t" for person entry t
  proof (cases t)
    case True
    with pe t have "P person" unfolding P_def by auto
    moreover from pe have "person \<in> set (map fst people)" by force
    ultimately show ?thesis using True unfolding S_def by simp
  next
    case False
    have "\<not> P person"
    proof
      assume "P person"
      then obtain entry' where e': "(person, entry') \<in> set people" "trait entry' = Some True"
        unfolding P_def by blast
      from assms e'(1) pe have "entry' = entry"
        by (rule eq_key_imp_eq_value)
      with e'(2) t False show False by simp
    qed
    with False show ?thesis unfolding S_def by simp
  qed
  have "\<not> fails_evidence people S"
    unfolding fails_evidence_def list_ex_iff
  proof
    assume "\<exists>x \<in> set people. case x of (person, entry) \<Rightarrow>
               trait entry \<noteq> None \<and> trait entry \<noteq> Some (person \<in> S)"
    then obtain person entry where pe: "(person, entry) \<in> set people"
      and obs: "trait entry \<noteq> None" and bad: "trait entry \<noteq> Some (person \<in> S)"
      by auto
    from obs obtain t where t: "trait entry = Some t" by auto
    from mem [OF pe t] t bad show False by simp
  qed
  moreover have "S \<in> set (powerset (map fst people))"
    unfolding S_def by (rule filter_in_powerset)
  ultimately show ?thesis unfolding list_ex_iff by blast
qed

text \<open>
  C8. Claim: when at least one assignment is consistent with the observed traits, the
  normalized result gives every person with an observed trait \<open>t\<close> probability 1 for
  \<open>t\<close> and 0 for the other value, because every enumerated assignment that
  contradicts an observation is skipped. The hypothesis is that the enumeration of
  \<^verbatim>\<open>have_trait\<close> meets a set that passes the test of lines 68 to 74; then
  \<^verbatim>\<open>normalize\<close> raises nothing and the result has the stated entries.
\<close>

theorem evidence_respected:
  assumes "list_ex (\<lambda>have_trait. \<not> fails_evidence people have_trait) (powerset (map fst people))"
  shows "\<exists>probs. heredity_main people = Inr probs \<and> map fst probs = map fst people
     \<and> (\<forall>(person, d) \<in> set probs. \<forall>entry t.
           (person, entry) \<in> set people \<and> trait entry = Some t
             \<longrightarrow> p_trait d t = 1 \<and> p_trait d (\<not> t) = 0)"
proof -
  let ?acc = "enumerate_assignments people"
  let ?res = "map (\<lambda>(person, d). (person, normalize_entry d)) ?acc"
  have g: "all_consistent people ?acc" and s: "all_positive ?acc"
    using enumerate_consistent assms by blast+
  have nz: "\<forall>(person, d) \<in> set ?acc. gene_sum d \<noteq> 0 \<and> trait_sum d \<noteq> 0"
    using s by (auto simp: all_positive_def positive_sums_def)
  have r: "heredity_main people = Inr ?res"
    unfolding heredity_main_def by (rule normalize_ok [OF nz])
  have names: "map fst ?acc = map fst people"
    by (rule enumerate_names)
  have ev: "p_trait d' t = 1 \<and> p_trait d' (\<not> t) = 0"
    if "(person, d') \<in> set ?res" "(person, entry) \<in> set people" "trait entry = Some t"
    for person d' entry t
  proof -
    from that(1) obtain d where d: "(person, d) \<in> set ?acc" "d' = normalize_entry d" by auto
    from g d(1) that(2,3) have z: "p_trait d (\<not> t) = 0"
      by (auto simp: all_consistent_def keeps_evidence_def)
    from s d(1) have "0 < p_trait d True + p_trait d False"
      by (auto simp: all_positive_def positive_sums_def trait_sum_def)
    with z d(2) show ?thesis by (cases t) (simp_all add: normalize_entry_def trait_sum_def)
  qed
  have "map fst ?res = map fst people" using names by (simp add: comp_def case_prod_unfold)
  with r ev show ?thesis by blast
qed

theorem evidence_respected_witness:
  "list_ex (\<lambda>have_trait. \<not> fails_evidence family_three have_trait)
     (powerset (map fst family_three))
   \<and> (\<exists>probs d. heredity_main family_three = Inr probs \<and> (''James'', d) \<in> set probs
        \<and> p_trait d True = 1 \<and> p_trait d False = 0)"
proof -
  have up: "[0 ..< 4] = [0, 1, 2, 3::nat]"
    by (simp add: upt_rec)
  have "\<not> fails_evidence family_three {''James''}"
    by (simp add: fails_evidence_def family_three_def)
  moreover have "{''James''} \<in> set (powerset (map fst family_three))"
    by (simp add: powerset_def family_three_def up)
  ultimately have h: "list_ex (\<lambda>have_trait. \<not> fails_evidence family_three have_trait)
     (powerset (map fst family_three))"
    unfolding list_ex_iff by blast
  from evidence_respected [OF h] obtain probs where
    p: "heredity_main family_three = Inr probs" "map fst probs = map fst family_three"
    and ev: "\<forall>(person, d) \<in> set probs. \<forall>entry t.
           (person, entry) \<in> set family_three \<and> trait entry = Some t
             \<longrightarrow> p_trait d t = 1 \<and> p_trait d (\<not> t) = 0"
    by blast
  have "''James'' \<in> set (map fst probs)"
    unfolding p(2) by (simp add: family_three_def)
  then obtain d where d: "(''James'', d) \<in> set probs" by auto
  have "(''James'', \<lparr>name = ''James'', mother = None, father = None, trait = Some True\<rparr>)
          \<in> set family_three"
    by (simp add: family_three_def)
  with ev d have "p_trait d True = 1 \<and> p_trait d (\<not> True) = 0" by fastforce
  with h p(1) d show ?thesis by auto
qed

text \<open>
  \<^verbatim>\<open>normalize\<close> in exact arithmetic: a zero sum raises \<^verbatim>\<open>ZeroDivisionError\<close>, and
  positive sums give distributions that sum to exactly 1.
\<close>

lemma normalize_exact_outcomes:
  "(list_ex (\<lambda>(person, d). gene_sum d = 0 \<or> trait_sum d = 0) probs
      \<longrightarrow> normalize_probabilities probs = Inl ZeroDivisionError)
   \<and> (list_all (\<lambda>(person, d). 0 < gene_sum d \<and> 0 < trait_sum d) probs
      \<longrightarrow> (\<exists>probs'. normalize_probabilities probs = Inr probs'
             \<and> map fst probs' = map fst probs
             \<and> list_all (\<lambda>(person, d). gene_sum d = 1 \<and> trait_sum d = 1) probs'))"
proof (intro conjI impI)
  assume "list_ex (\<lambda>(person, d). gene_sum d = 0 \<or> trait_sum d = 0) probs"
  then have "\<exists>(person, d) \<in> set probs. gene_sum d = 0 \<or> trait_sum d = 0"
    by (simp add: list_ex_iff)
  then show "normalize_probabilities probs = Inl ZeroDivisionError"
    by (rule normalize_zero)
next
  let ?res = "map (\<lambda>(person, d). (person, normalize_entry d)) probs"
  assume "list_all (\<lambda>(person, d). 0 < gene_sum d \<and> 0 < trait_sum d) probs"
  then have pos: "\<forall>(person, d) \<in> set probs. gene_sum d \<noteq> 0 \<and> trait_sum d \<noteq> 0"
    by (auto simp: list_all_iff)
  then have "normalize_probabilities probs = Inr ?res"
    by (rule normalize_ok)
  moreover have "map fst ?res = map fst probs"
    by (simp add: comp_def case_prod_unfold)
  moreover have "list_all (\<lambda>(person, d). gene_sum d = 1 \<and> trait_sum d = 1) ?res"
    using pos by (auto simp: list_all_iff normalize_entry_sums)
  ultimately show "\<exists>probs'. normalize_probabilities probs = Inr probs'
             \<and> map fst probs' = map fst probs
             \<and> list_all (\<lambda>(person, d). gene_sum d = 1 \<and> trait_sum d = 1) probs'"
    by blast
qed

text \<open>
  \<^verbatim>\<open>normalize\<close> on floats. The three rounded additions stay within \<open>9 * u\<close> of
  the exact sum, relatively; each rounded quotient is within \<open>u * q + \<eta>\<close> of the
  exact quotient \<open>q\<close>.
\<close>

lemma round_error:
  assumes "rounding_model r u \<eta> M" "\<bar>x\<bar> \<le> M"
  shows "\<bar>r x - x\<bar> \<le> u * \<bar>x\<bar> + \<eta>"
  using assms unfolding rounding_model_def by blast

lemma rounded_sum3:
  assumes rm: "rounding_model r u \<eta> M"
    and nn: "0 \<le> g0" "0 \<le> g1" "0 \<le> g2"
    and S: "S = g0 + g1 + g2"
    and eta: "\<eta> \<le> u * S"
    and M: "2 * S \<le> M"
  shows "\<bar>r (r (r (0 + g0) + g1) + g2) - S\<bar> \<le> 9 * (u * S)"
proof -
  define t where "t = u * S"
  from rm have u: "0 \<le> u" "u \<le> 1 / 100" and e0: "0 \<le> \<eta>"
    unfolding rounding_model_def by simp_all
  from nn S have S0: "0 \<le> S" by simp
  have t0: "0 \<le> t" unfolding t_def using u(1) S0 by simp
  have "u * S \<le> (1 / 100) * S" using u(2) S0 by (rule mult_right_mono)
  then have tS: "100 * t \<le> S" unfolding t_def by simp
  from eta have et: "\<eta> \<le> t" unfolding t_def .
  have ub: "u * x \<le> 2 * t" if "0 \<le> x" "x \<le> 2 * S" for x
  proof -
    have "u * x \<le> u * (2 * S)" using that(2) u(1) by (rule mult_left_mono)
    then show ?thesis unfolding t_def by simp
  qed
  define a where "a = r (0 + g0)"
  define b where "b = r (a + g1)"
  define c where "c = r (b + g2)"
  have "\<bar>0 + g0\<bar> \<le> M" using nn S M by simp
  from round_error [OF rm this] have "\<bar>a - g0\<bar> \<le> u * \<bar>g0\<bar> + \<eta>"
    unfolding a_def by simp
  moreover have "u * \<bar>g0\<bar> \<le> 2 * t" using nn S by (intro ub) simp_all
  ultimately have ea: "\<bar>a - g0\<bar> \<le> 3 * t" using et by linarith
  have ab: "\<bar>a + g1\<bar> \<le> 2 * S" using ea nn S tS t0 by linarith
  then have "\<bar>a + g1\<bar> \<le> M" using M by linarith
  from round_error [OF rm this] have "\<bar>b - (a + g1)\<bar> \<le> u * \<bar>a + g1\<bar> + \<eta>"
    unfolding b_def .
  moreover have "u * \<bar>a + g1\<bar> \<le> 2 * t" using ab by (intro ub) simp_all
  ultimately have eb: "\<bar>b - (a + g1)\<bar> \<le> 3 * t" using et by linarith
  have bb: "\<bar>b + g2\<bar> \<le> 2 * S" using ea eb nn S tS t0 by linarith
  then have "\<bar>b + g2\<bar> \<le> M" using M by linarith
  from round_error [OF rm this] have "\<bar>c - (b + g2)\<bar> \<le> u * \<bar>b + g2\<bar> + \<eta>"
    unfolding c_def .
  moreover have "u * \<bar>b + g2\<bar> \<le> 2 * t" using bb by (intro ub) simp_all
  ultimately have ec: "\<bar>c - (b + g2)\<bar> \<le> 3 * t" using et by linarith
  have "\<bar>c - S\<bar> \<le> 9 * t" using ea eb ec S by linarith
  then show ?thesis unfolding c_def b_def a_def t_def .
qed

lemma rounded_sum2:
  assumes rm: "rounding_model r u \<eta> M"
    and nn: "0 \<le> g0" "0 \<le> g1"
    and S: "S = g0 + g1"
    and eta: "\<eta> \<le> u * S"
    and M: "2 * S \<le> M"
  shows "\<bar>r (g0 + g1) - S\<bar> \<le> 9 * (u * S)"
proof -
  from rm have u: "0 \<le> u" unfolding rounding_model_def by simp
  from nn S have S0: "0 \<le> S" by simp
  have t0: "0 \<le> u * S" using u S0 by simp
  have "\<bar>g0 + g1\<bar> \<le> M" using nn S M by simp
  from round_error [OF rm this] have "\<bar>r (g0 + g1) - S\<bar> \<le> u * S + \<eta>"
    using nn S by simp
  with eta t0 show ?thesis by linarith
qed

lemma divisor_close:
  fixes u S c :: real
  assumes u: "0 \<le> u" "u \<le> 1 / 100"
    and S0: "0 < S"
    and c: "\<bar>c - S\<bar> \<le> 9 * (u * S)"
  shows "0 < c" and "S / c \<le> 100 / 91" and "\<bar>S / c - 1\<bar> \<le> 9 * u * (100 / 91)"
proof -
  have "u * S \<le> (1 / 100) * S" using u(2) S0 by (intro mult_right_mono) simp_all
  with c have low: "(91 / 100) * S \<le> c" by linarith
  with S0 show cpos: "0 < c" by linarith
  from low cpos show ratio: "S / c \<le> 100 / 91"
    by (simp add: pos_divide_le_eq)
  have "\<bar>S / c - 1\<bar> = \<bar>S - c\<bar> / c"
    using cpos by (simp add: field_simps abs_divide)
  also have "\<dots> \<le> 9 * (u * S) / c"
    using c cpos by (simp add: divide_right_mono abs_minus_commute)
  also have "\<dots> = 9 * u * (S / c)" by simp
  also have "\<dots> \<le> 9 * u * (100 / 91)"
    using ratio u(1) by (intro mult_left_mono) simp_all
  finally show "\<bar>S / c - 1\<bar> \<le> 9 * u * (100 / 91)" .
qed

lemma rounded_quotient:
  fixes g c S :: real
  assumes rm: "rounding_model r u \<eta> M"
    and cpos: "0 < c" and ratio: "S / c \<le> 100 / 91"
    and g: "0 \<le> g" "g \<le> S"
  shows "\<bar>r (g / c) - g / c\<bar> \<le> u * (g / c) + \<eta>"
proof -
  from rm have M: "2 \<le> M" unfolding rounding_model_def by simp
  have q0: "0 \<le> g / c" using g(1) cpos by simp
  have "g / c \<le> S / c" using g(2) cpos by (simp add: divide_right_mono)
  with ratio q0 M have "\<bar>g / c\<bar> \<le> M" by linarith
  from round_error [OF rm this] show ?thesis
    unfolding abs_of_nonneg [OF q0] .
qed

lemma quotients_total:
  fixes u \<eta> Q q0 q1 q2 r0 r1 r2 :: real
  assumes u: "0 \<le> u"
    and Q: "Q = q0 + q1 + q2" "Q \<le> 100 / 91" "\<bar>Q - 1\<bar> \<le> 9 * u * (100 / 91)"
    and e: "\<bar>r0 - q0\<bar> \<le> u * q0 + \<eta>" "\<bar>r1 - q1\<bar> \<le> u * q1 + \<eta>"
      "\<bar>r2 - q2\<bar> \<le> u * q2 + \<eta>"
  shows "\<bar>r0 + r1 + r2 - 1\<bar> \<le> 11 * u + 3 * \<eta>"
proof -
  have "u * q0 + u * q1 + u * q2 = u * Q" unfolding Q(1) by (simp add: algebra_simps)
  moreover have "u * Q \<le> u * (100 / 91)" using Q(2) u by (rule mult_left_mono)
  ultimately show ?thesis using Q(1,3) e by linarith
qed

lemma normalize_entry_rounded_gene:
  assumes rm: "rounding_model r u \<eta> M" and d: "in_range u \<eta> M d"
  shows "gene_sum_rounded r d \<noteq> 0"
    and "\<bar>gene_sum (normalize_entry_rounded r d) - 1\<bar> \<le> 11 * u + 3 * \<eta>"
proof -
  define g0 g1 g2 where "g0 = p_gene d 0" and "g1 = p_gene d 1" and "g2 = p_gene d 2"
  define S where "S = g0 + g1 + g2"
  define c where "c = gene_sum_rounded r d"
  from rm have u: "0 \<le> u" "u \<le> 1 / 100" unfolding rounding_model_def by simp_all
  from d have nn: "0 \<le> g0" "0 \<le> g1" "0 \<le> g2"
    unfolding in_range_def nonneg_entry_def g0_def g1_def g2_def by simp_all
  have Sd: "S = gene_sum d" unfolding S_def gene_sum_def g0_def g1_def g2_def by simp
  from d have S0: "0 < S" and eta: "\<eta> \<le> u * S" and M: "2 * S \<le> M"
    unfolding in_range_def Sd by simp_all
  have "\<bar>c - S\<bar> \<le> 9 * (u * S)"
    unfolding c_def gene_sum_rounded_def
    using rounded_sum3 [OF rm nn S_def eta M] unfolding g0_def g1_def g2_def .
  from divisor_close [OF u S0 this]
  have cpos: "0 < c" and ratio: "S / c \<le> 100 / 91"
    and close: "\<bar>S / c - 1\<bar> \<le> 9 * u * (100 / 91)"
    by simp_all
  from cpos show "gene_sum_rounded r d \<noteq> 0" unfolding c_def by simp
  have le: "g0 \<le> S" "g1 \<le> S" "g2 \<le> S" using nn unfolding S_def by simp_all
  have e: "\<bar>r (g0 / c) - g0 / c\<bar> \<le> u * (g0 / c) + \<eta>"
    "\<bar>r (g1 / c) - g1 / c\<bar> \<le> u * (g1 / c) + \<eta>"
    "\<bar>r (g2 / c) - g2 / c\<bar> \<le> u * (g2 / c) + \<eta>"
    using rounded_quotient [OF rm cpos ratio] nn le by simp_all
  have Q: "S / c = g0 / c + g1 / c + g2 / c"
    unfolding S_def by (simp add: add_divide_distrib)
  have "\<bar>r (g0 / c) + r (g1 / c) + r (g2 / c) - 1\<bar> \<le> 11 * u + 3 * \<eta>"
    using quotients_total [OF u(1) Q ratio close e] .
  moreover have "gene_sum (normalize_entry_rounded r d) = r (g0 / c) + r (g1 / c) + r (g2 / c)"
    unfolding gene_sum_def normalize_entry_rounded_def c_def g0_def g1_def g2_def by simp
  ultimately show "\<bar>gene_sum (normalize_entry_rounded r d) - 1\<bar> \<le> 11 * u + 3 * \<eta>"
    by simp
qed

lemma normalize_entry_rounded_trait:
  assumes rm: "rounding_model r u \<eta> M" and d: "in_range u \<eta> M d"
  shows "trait_sum_rounded r d \<noteq> 0"
    and "\<bar>trait_sum (normalize_entry_rounded r d) - 1\<bar> \<le> 11 * u + 3 * \<eta>"
proof -
  define g0 g1 where "g0 = p_trait d True" and "g1 = p_trait d False"
  define S where "S = g0 + g1"
  define c where "c = trait_sum_rounded r d"
  from rm have u: "0 \<le> u" "u \<le> 1 / 100" and e0: "0 \<le> \<eta>"
    unfolding rounding_model_def by simp_all
  from d have nn: "0 \<le> g0" "0 \<le> g1"
    unfolding in_range_def nonneg_entry_def g0_def g1_def by simp_all
  have Sd: "S = trait_sum d" unfolding S_def trait_sum_def g0_def g1_def by simp
  from d have S0: "0 < S" and eta: "\<eta> \<le> u * S" and M: "2 * S \<le> M"
    unfolding in_range_def Sd by simp_all
  have "\<bar>c - S\<bar> \<le> 9 * (u * S)"
    unfolding c_def trait_sum_rounded_def
    using rounded_sum2 [OF rm nn S_def eta M] unfolding g0_def g1_def .
  from divisor_close [OF u S0 this]
  have cpos: "0 < c" and ratio: "S / c \<le> 100 / 91"
    and close: "\<bar>S / c - 1\<bar> \<le> 9 * u * (100 / 91)"
    by simp_all
  from cpos show "trait_sum_rounded r d \<noteq> 0" unfolding c_def by simp
  have le: "g0 \<le> S" "g1 \<le> S" using nn unfolding S_def by simp_all
  have e: "\<bar>r (g0 / c) - g0 / c\<bar> \<le> u * (g0 / c) + \<eta>"
    "\<bar>r (g1 / c) - g1 / c\<bar> \<le> u * (g1 / c) + \<eta>"
    using rounded_quotient [OF rm cpos ratio] nn le by simp_all
  have z: "\<bar>(0::real) - 0\<bar> \<le> u * 0 + \<eta>" using e0 by simp
  have Q: "S / c = g0 / c + g1 / c + 0"
    unfolding S_def by (simp add: add_divide_distrib)
  have "\<bar>r (g0 / c) + r (g1 / c) + 0 - 1\<bar> \<le> 11 * u + 3 * \<eta>"
    using quotients_total [OF u(1) Q ratio close e z] .
  moreover have "trait_sum (normalize_entry_rounded r d) = r (g0 / c) + r (g1 / c)"
    unfolding trait_sum_def normalize_entry_rounded_def c_def g0_def g1_def by simp
  ultimately show "\<bar>trait_sum (normalize_entry_rounded r d) - 1\<bar> \<le> 11 * u + 3 * \<eta>"
    by simp
qed

text \<open>
  The rounded \<^verbatim>\<open>normalize\<close> as a whole; with the identity as rounding it is the exact
  one. Whatever the rounding and the table, the only error it returns is
  \<^verbatim>\<open>ZeroDivisionError\<close>.
\<close>

lemma normalize_rounded_ok:
  assumes "\<forall>(person, d) \<in> set probs. gene_sum_rounded r d \<noteq> 0 \<and> trait_sum_rounded r d \<noteq> 0"
  shows "normalize_rounded r probs
           = Inr (map (\<lambda>(person, d). (person, normalize_entry_rounded r d)) probs)"
  using assms
proof (induction probs)
  case Nil
  show ?case by simp
next
  case (Cons x probs)
  obtain person d where x: "x = (person, d)" by (cases x)
  from Cons.prems x have nz: "gene_sum_rounded r d \<noteq> 0" "trait_sum_rounded r d \<noteq> 0" by auto
  from Cons have "normalize_rounded r probs
           = Inr (map (\<lambda>(person, d). (person, normalize_entry_rounded r d)) probs)"
    by simp
  with nz x show ?case by simp
qed

lemma normalize_rounded_zero:
  assumes "\<exists>(person, d) \<in> set probs. gene_sum_rounded r d = 0 \<or> trait_sum_rounded r d = 0"
  shows "normalize_rounded r probs = Inl ZeroDivisionError"
  using assms
proof (induction probs)
  case Nil
  then show ?case by simp
next
  case (Cons x probs)
  obtain person d where x: "x = (person, d)" by (cases x)
  show ?case
  proof (cases "gene_sum_rounded r d = 0 \<or> trait_sum_rounded r d = 0")
    case True
    with x show ?thesis by auto
  next
    case False
    with Cons.prems x
    have "\<exists>(person, d) \<in> set probs. gene_sum_rounded r d = 0 \<or> trait_sum_rounded r d = 0"
      by auto
    with Cons.IH have "normalize_rounded r probs = Inl ZeroDivisionError" by simp
    with x show ?thesis by simp
  qed
qed

lemma normalize_rounded_exact:
  "normalize_rounded (\<lambda>x. x) probs = normalize_probabilities probs"
proof (induction probs)
  case Nil
  show ?case by simp
next
  case (Cons x probs)
  obtain person d where x: "x = (person, d)" by (cases x)
  have g: "gene_sum_rounded (\<lambda>x. x) d = gene_sum d"
    by (simp add: gene_sum_rounded_def gene_sum_def)
  have t: "trait_sum_rounded (\<lambda>x. x) d = trait_sum d"
    by (simp add: trait_sum_rounded_def trait_sum_def)
  have e: "normalize_entry_rounded (\<lambda>x. x) d = normalize_entry d"
    unfolding normalize_entry_rounded_def normalize_entry_def g t ..
  from Cons x show ?case by (simp add: g t e split: sum.split)
qed

lemma normalize_rounded_error:
  "normalize_rounded r probs = Inl e \<Longrightarrow> e = ZeroDivisionError"
proof (induction probs)
  case Nil
  then show ?case by simp
next
  case (Cons x probs)
  obtain person d where x: "x = (person, d)" by (cases x)
  with Cons show ?case by (auto split: if_splits sum.splits)
qed

text \<open>
  C9. Claim: when a gene or trait sum is zero, \<^verbatim>\<open>normalize\<close> reports an
  InvariantViolation rather than NaN or any other outcome; when the sums are positive,
  each distribution sums to 1 afterwards. The source has no such error: the division
  raises Python's \<^verbatim>\<open>ZeroDivisionError\<close>. The table is the one \<^verbatim>\<open>main\<close> builds on
  lines 48 to 61 for one person, before any update, passed to \<^verbatim>\<open>normalize\<close> as it
  is; the outcome is the same in exact arithmetic and with a rounding.
\<close>

theorem normalize_zero_sum_error:
  "normalize_probabilities [(''Harry'', zero_entry)] = Inl ZeroDivisionError
   \<and> normalize_probabilities [(''Harry'', zero_entry)] \<noteq> Inl InvariantViolation
   \<and> normalize_rounded round_up [(''Harry'', zero_entry)] = Inl ZeroDivisionError
   \<and> normalize_rounded round_up [(''Harry'', zero_entry)] \<noteq> Inl InvariantViolation"
  by (simp add: zero_entry_def gene_sum_def gene_sum_rounded_def round_up_def)

text \<open>
  C9, amended. When the gene sum or the trait sum that \<^verbatim>\<open>normalize\<close> computes for
  some person is zero, it raises \<^verbatim>\<open>ZeroDivisionError\<close> and returns nothing (no NaN).
  When no bucket is negative and every person's two sums are positive and neither
  underflow nor overflow, it returns the table of the same people, and each person's
  gene distribution and trait distribution sum to 1 within \<open>11 * u + 3 * \<eta>\<close>: exactly 1
  in exact arithmetic, and within \<open>2 / 10 ^ 15\<close> of 1 on doubles.
\<close>

theorem normalize_outcomes:
  "(list_ex (\<lambda>(person, d). gene_sum_rounded r d = 0 \<or> trait_sum_rounded r d = 0) probs
      \<longrightarrow> normalize_rounded r probs = Inl ZeroDivisionError)
   \<and> (rounding_model r u \<eta> M \<and> list_all (\<lambda>(person, d). in_range u \<eta> M d) probs
      \<longrightarrow> (\<exists>probs'. normalize_rounded r probs = Inr probs'
             \<and> map fst probs' = map fst probs
             \<and> list_all (\<lambda>(person, d). \<bar>gene_sum d - 1\<bar> \<le> 11 * u + 3 * \<eta>
                                        \<and> \<bar>trait_sum d - 1\<bar> \<le> 11 * u + 3 * \<eta>) probs'))"
proof (intro conjI impI)
  assume "list_ex (\<lambda>(person, d). gene_sum_rounded r d = 0 \<or> trait_sum_rounded r d = 0) probs"
  then have "\<exists>(person, d) \<in> set probs. gene_sum_rounded r d = 0 \<or> trait_sum_rounded r d = 0"
    by (simp add: list_ex_iff)
  then show "normalize_rounded r probs = Inl ZeroDivisionError"
    by (rule normalize_rounded_zero)
next
  let ?res = "map (\<lambda>(person, d). (person, normalize_entry_rounded r d)) probs"
  assume h: "rounding_model r u \<eta> M \<and> list_all (\<lambda>(person, d). in_range u \<eta> M d) probs"
  then have rm: "rounding_model r u \<eta> M"
    and ir: "\<And>person d. (person, d) \<in> set probs \<Longrightarrow> in_range u \<eta> M d"
    by (auto simp: list_all_iff)
  have "\<forall>(person, d) \<in> set probs. gene_sum_rounded r d \<noteq> 0 \<and> trait_sum_rounded r d \<noteq> 0"
    using normalize_entry_rounded_gene(1) [OF rm ir] normalize_entry_rounded_trait(1) [OF rm ir]
    by auto
  then have "normalize_rounded r probs = Inr ?res"
    by (rule normalize_rounded_ok)
  moreover have "map fst ?res = map fst probs"
    by (simp add: comp_def case_prod_unfold)
  moreover have "list_all (\<lambda>(person, d). \<bar>gene_sum d - 1\<bar> \<le> 11 * u + 3 * \<eta>
                                        \<and> \<bar>trait_sum d - 1\<bar> \<le> 11 * u + 3 * \<eta>) ?res"
    using normalize_entry_rounded_gene(2) [OF rm ir] normalize_entry_rounded_trait(2) [OF rm ir]
    by (auto simp: list_all_iff)
  ultimately show "\<exists>probs'. normalize_rounded r probs = Inr probs'
             \<and> map fst probs' = map fst probs
             \<and> list_all (\<lambda>(person, d). \<bar>gene_sum d - 1\<bar> \<le> 11 * u + 3 * \<eta>
                                        \<and> \<bar>trait_sum d - 1\<bar> \<le> 11 * u + 3 * \<eta>) probs'"
    by blast
qed

theorem normalize_outcomes_witness:
  "list_ex (\<lambda>(person, d). gene_sum_rounded round_up d = 0 \<or> trait_sum_rounded round_up d = 0)
     [(''Harry'', zero_entry)]
   \<and> normalize_rounded round_up [(''Harry'', zero_entry)] = Inl ZeroDivisionError
   \<and> rounding_model round_up (1 / 2 ^ 53) 0 100
   \<and> list_all (\<lambda>(person, d). in_range (1 / 2 ^ 53) 0 100 d) [(''Harry'', sample_entry)]
   \<and> (\<exists>probs'. normalize_rounded round_up [(''Harry'', sample_entry)] = Inr probs'
         \<and> map fst probs' = [''Harry'']
         \<and> list_all (\<lambda>(person, d). \<bar>gene_sum d - 1\<bar> \<le> 11 * (1 / 2 ^ 53) + 3 * 0
                                    \<and> \<bar>trait_sum d - 1\<bar> \<le> 11 * (1 / 2 ^ 53) + 3 * 0) probs')
   \<and> rounding_model (\<lambda>x. x) 0 0 100
   \<and> list_all (\<lambda>(person, d). in_range 0 0 100 d) [(''Harry'', sample_entry)]
   \<and> (\<exists>probs'. normalize_rounded (\<lambda>x. x) [(''Harry'', sample_entry)] = Inr probs'
         \<and> map fst probs' = [''Harry'']
         \<and> list_all (\<lambda>(person, d). gene_sum d = 1 \<and> trait_sum d = 1) probs')"
proof -
  have z: "list_ex (\<lambda>(person, d). gene_sum_rounded round_up d = 0 \<or> trait_sum_rounded round_up d = 0)
     [(''Harry'', zero_entry)]"
    by (simp add: zero_entry_def gene_sum_rounded_def round_up_def)
  have e: "\<bar>round_up x - x\<bar> \<le> (1 / 2 ^ 53) * \<bar>x\<bar> + 0" for x
  proof -
    have "round_up x - x = x * (1 / 2 ^ 53)"
      unfolding round_up_def by (simp only: distrib_left mult_1_right add_diff_cancel_left')
    then have "\<bar>round_up x - x\<bar> = \<bar>x\<bar> * \<bar>1 / 2 ^ 53\<bar>"
      by (simp only: abs_mult)
    then show ?thesis by simp
  qed
  have rm: "rounding_model round_up (1 / 2 ^ 53) 0 100"
    unfolding rounding_model_def using e by simp
  have ir: "list_all (\<lambda>(person, d). in_range (1 / 2 ^ 53) 0 100 d) [(''Harry'', sample_entry)]"
    by (simp add: in_range_def nonneg_entry_def sample_entry_def gene_sum_def trait_sum_def)
  have rm0: "rounding_model (\<lambda>x. x) 0 0 100"
    by (simp add: rounding_model_def)
  have ir0: "list_all (\<lambda>(person, d). in_range 0 0 100 d) [(''Harry'', sample_entry)]"
    by (simp add: in_range_def nonneg_entry_def sample_entry_def gene_sum_def trait_sum_def)
  from z normalize_outcomes [where r = round_up and probs = "[(''Harry'', zero_entry)]"]
  have c1: "normalize_rounded round_up [(''Harry'', zero_entry)] = Inl ZeroDivisionError"
    by blast
  from rm ir
    normalize_outcomes [where r = round_up and probs = "[(''Harry'', sample_entry)]"
      and u = "1 / 2 ^ 53" and \<eta> = 0 and M = 100]
  have c2: "\<exists>probs'. normalize_rounded round_up [(''Harry'', sample_entry)] = Inr probs'
         \<and> map fst probs' = [''Harry'']
         \<and> list_all (\<lambda>(person, d). \<bar>gene_sum d - 1\<bar> \<le> 11 * (1 / 2 ^ 53) + 3 * 0
                                    \<and> \<bar>trait_sum d - 1\<bar> \<le> 11 * (1 / 2 ^ 53) + 3 * 0) probs'"
    by simp
  from rm0 ir0
    normalize_outcomes [where r = "\<lambda>x. x" and probs = "[(''Harry'', sample_entry)]"
      and u = 0 and \<eta> = 0 and M = 100]
  have c3: "\<exists>probs'. normalize_rounded (\<lambda>x. x) [(''Harry'', sample_entry)] = Inr probs'
         \<and> map fst probs' = [''Harry'']
         \<and> list_all (\<lambda>(person, d). gene_sum d = 1 \<and> trait_sum d = 1) probs'"
    by simp
  from z c1 rm ir c2 rm0 ir0 c3 show ?thesis by blast
qed

section \<open>PageRank: theorems\<close>

text \<open>
  C3. Claim: each update step of the iterative estimator sets
  \<open>new_rank(p) = (1 - d) / N + d * (sum over the pages q that link to p of rank(q) / |L(q)|)\<close>,
  a dangling page giving \<open>rank(q) / N\<close> to every page; pages that do not link to
  \<open>p\<close> give nothing, and a dangling page causes no division by zero. In the source
  \<^verbatim>\<open>iterative_sum\<close> adds \<open>rank(q) / |L(q)|\<close> for every page \<open>q\<close>: on two pages that
  link to each other the first pass gives both pages 0.925 where the formula gives 0.5,
  and on a corpus with a dangling page the pass stops with \<^verbatim>\<open>ZeroDivisionError\<close>.
\<close>

theorem update_pass_sums_all_pages:
  "update_pass corpus_pair 0.85 (initial_ranks corpus_pair) (map fst corpus_pair) False
     = Inr ([(''1.html'', 0.925), (''2.html'', 0.925)], True)
   \<and> spec_new_rank corpus_pair 0.85 (initial_ranks corpus_pair) ''1.html'' = 0.5
   \<and> spec_new_rank corpus_pair 0.85 (initial_ranks corpus_pair) ''2.html'' = 0.5
   \<and> update_pass corpus_dangling 0.85 (initial_ranks corpus_dangling)
        (map fst corpus_dangling) False = Inl ZeroDivisionError
   \<and> iterate_pagerank 1 corpus_dangling 0.85 = Some (Inl ZeroDivisionError)"
  by (simp add: corpus_pair_def corpus_dangling_def initial_ranks_def getitem_def
      spec_new_rank_def rank_of_def iterate_pagerank_def)

text \<open>
  C4. Claim: \<^verbatim>\<open>sample_pagerank\<close> returns for each page the share of the \<open>n\<close> sampled
  visits that landed on it. The source averages the transition distributions instead:
  with \<open>n = 2\<close> on the two pages that link to each other it returns 0.075 and 0.925,
  and no count of visits divided by 2 is 0.075.
\<close>

theorem sample_pagerank_not_visit_share:
  "sample_pagerank corpus_pair 0.85 2 (\<lambda>_. 0)
     = Inr [(''1.html'', 0.075), (''2.html'', 0.925)]
   \<and> transition_model corpus_pair ''1.html'' 0.85
     = Inr [(''1.html'', 0.075), (''2.html'', 0.925)]
   \<and> (\<forall>visits. spec_visit_fraction visits 2 ''1.html'' \<noteq> 0.075)"
proof -
  have t: "transition_model corpus_pair ''1.html'' 0.85
             = Inr [(''1.html'', 0.075), (''2.html'', 0.925)]"
    by (simp add: transition_model_def corpus_pair_def getitem_def)
  have r: "[Suc 0 ..< 2] = [Suc 0]"
    by (simp add: upt_rec)
  have s: "sample_pagerank corpus_pair 0.85 2 (\<lambda>_. 0)
             = Inr [(''1.html'', 0.075), (''2.html'', 0.925)]"
    by (simp add: r sample_pagerank_def corpus_pair_def random_choice_def random_choices_def
        transition_model_def getitem_def)
  have v: "spec_visit_fraction visits 2 ''1.html'' \<noteq> 0.075" for visits
  proof
    assume "spec_visit_fraction visits 2 ''1.html'' = 0.075"
    then have "real (count_list visits ''1.html'') * 20 = 3"
      by (simp add: spec_visit_fraction_def)
    then have "real (count_list visits ''1.html'' * 20) = real 3" by simp
    then have "count_list visits ''1.html'' * 20 = 3" by (simp only: of_nat_eq_iff)
    then show False by presburger
  qed
  from t s v show ?thesis by blast
qed

text \<open>
  The sampling estimator on a corpus whose links all lead to pages of the corpus: every
  transition distribution sums to 1, the running average of line 104 keeps the sum, and
  the weighted draw of line 106 returns a page of the corpus. With \<open>n \<ge> 2\<close> the
  result sums to 1; with \<open>n = 1\<close> the loop does not run and the result is all zero.
\<close>

lemma sum_list_indicator:
  fixes c e :: real
  shows "sum_list (map (\<lambda>x. c + (if P x then e else 0)) xs)
           = c * real (length xs) + e * real (length (filter P xs))"
  by (induction xs) (simp_all add: algebra_simps)

lemma sum_list_const:
  fixes c :: real
  shows "sum_list (map (\<lambda>x. c) xs) = c * real (length xs)"
  by (induction xs) (simp_all add: algebra_simps)

lemma transition_model_sum:
  assumes dist: "distinct (map fst corpus)"
    and mem: "(page, out) \<in> set corpus"
    and sub: "out \<subseteq> set (map fst corpus)"
  shows "\<exists>cur. transition_model corpus page d = Inr cur \<and> map fst cur = map fst corpus
           \<and> sum_list (map snd cur) = 1"
proof -
  from dist mem have look: "getitem corpus page = Inr out"
    by (simp add: getitem_def)
  from mem have ne: "corpus \<noteq> []" by auto
  then have n0: "real (length corpus) \<noteq> 0" by simp
  show ?thesis
  proof (cases "card out = 0")
    case True
    let ?cur = "map (\<lambda>(link, _). (link, 1 / real (length corpus))) corpus"
    have "transition_model corpus page d = Inr ?cur"
      using look True by (simp add: transition_model_def)
    moreover have "map fst ?cur = map fst corpus"
      by (simp add: comp_def case_prod_unfold)
    moreover have "sum_list (map snd ?cur) = 1"
      using n0 by (simp add: comp_def case_prod_unfold sum_list_const)
    ultimately show ?thesis by blast
  next
    case False
    let ?c = "(1 - d) / real (length corpus)"
    let ?e = "d / real (card out)"
    let ?cur = "map (\<lambda>(link, v). (link, if link \<in> out then v + ?e else v))
                  (map (\<lambda>(link, _). (link, ?c)) corpus)"
    have keys: "map fst (map (\<lambda>(link, _). (link, ?c)) corpus) = map fst corpus"
      by (simp add: comp_def case_prod_unfold)
    have "transition_model corpus page d = Inr ?cur"
      using look False sub unfolding transition_model_def Let_def keys by simp
    moreover have "map fst ?cur = map fst corpus"
      by (simp add: comp_def case_prod_unfold)
    moreover have "sum_list (map snd ?cur) = 1"
    proof -
      have "map snd ?cur = map (\<lambda>x. ?c + (if fst x \<in> out then ?e else 0)) corpus"
        by (simp add: comp_def case_prod_unfold)
      then have "sum_list (map snd ?cur)
                   = ?c * real (length corpus) + ?e * real (length (filter (\<lambda>x. fst x \<in> out) corpus))"
        by (simp only: sum_list_indicator)
      moreover have "length (filter (\<lambda>x. fst x \<in> out) corpus)
                       = length (filter (\<lambda>k. k \<in> out) (map fst corpus))"
        by (simp add: filter_map comp_def)
      moreover have "length (filter (\<lambda>k. k \<in> out) (map fst corpus)) = card out"
      proof -
        have "{k. k \<in> out} \<inter> set (map fst corpus) = out" using sub by auto
        with distinct_length_filter [OF dist, of "\<lambda>k. k \<in> out"] show ?thesis by simp
      qed
      ultimately have "sum_list (map snd ?cur) = ?c * real (length corpus) + ?e * real (card out)"
        by simp
      also have "\<dots> = (1 - d) + d" using n0 False by simp
      finally show ?thesis by simp
    qed
    ultimately show ?thesis by blast
  qed
qed


lemma getitem_key:
  assumes "distinct (map fst cur)" "(p, c) \<in> set cur"
  shows "getitem cur p = Inr c"
  using assms by (simp add: getitem_def)

lemma running_average_sum:
  assumes dk: "distinct (map fst cur)"
    and sub: "set ds \<subseteq> {(p, v). p \<in> set (map fst cur)}"
  shows "\<exists>ds'. running_average i ds cur = Inr ds' \<and> map fst ds' = map fst ds
           \<and> sum_list (map snd ds')
               = (real (i - 1) * sum_list (map snd ds)
                  + sum_list (map (\<lambda>p. rank_of cur p) (map fst ds))) / real i"
  using sub
proof (induction ds)
  case Nil
  show ?case by simp
next
  case (Cons x ds)
  obtain p v where x: "x = (p, v)" by (cases x)
  from Cons.prems x have "p \<in> set (map fst cur)" by auto
  then obtain c where c: "(p, c) \<in> set cur" by auto
  have g: "getitem cur p = Inr c" using dk c by (rule getitem_key)
  have r: "rank_of cur p = c" using dk c by (simp add: rank_of_def)
  from Cons obtain ds' where d': "running_average i ds cur = Inr ds'"
    "map fst ds' = map fst ds"
    "sum_list (map snd ds')
       = (real (i - 1) * sum_list (map snd ds)
          + sum_list (map (\<lambda>p. rank_of cur p) (map fst ds))) / real i"
    by auto
  have "running_average i (x # ds) cur = Inr ((p, (real (i - 1) * v + c) / real i) # ds')"
    using x g d'(1) by simp
  moreover have "map fst ((p, (real (i - 1) * v + c) / real i) # ds') = map fst (x # ds)"
    using x d'(2) by simp
  moreover have "sum_list (map snd ((p, (real (i - 1) * v + c) / real i) # ds'))
               = (real (i - 1) * sum_list (map snd (x # ds))
                  + sum_list (map (\<lambda>p. rank_of cur p) (map fst (x # ds)))) / real i"
    using x r d'(3) by (simp add: add_divide_distrib algebra_simps)
  ultimately show ?case by blast
qed

lemma rank_of_keys:
  assumes "distinct (map fst cur)"
  shows "map (\<lambda>p. rank_of cur p) (map fst cur) = map snd cur"
proof -
  have "rank_of cur (fst x) = snd x" if "x \<in> set cur" for x
    using assms that by (cases x) (simp add: rank_of_def)
  then show ?thesis by (simp add: comp_def)
qed

lemma last_accumulate: "ws \<noteq> [] \<Longrightarrow> last (accumulate s ws) = s + sum_list ws"
proof (induction ws arbitrary: s)
  case Nil
  then show ?case by simp
next
  case (Cons w ws)
  show ?case
  proof (cases ws)
    case Nil
    then show ?thesis by simp
  next
    case (Cons w' ws')
    with Cons.IH [of "s + w"] show ?thesis by (simp add: algebra_simps)
  qed
qed

lemma length_accumulate: "length (accumulate s ws) = length ws"
  by (induction ws arbitrary: s) simp_all

lemma bisect_bound: "cs \<noteq> [] \<Longrightarrow> bisect cs x < length cs"
  by (induction cs x rule: bisect.induct) simp_all

lemma random_choices_member:
  assumes "population \<noteq> []" "length weights = length population" "0 < sum_list weights"
  shows "\<exists>x \<in> set population. random_choices u population weights = Inr x"
proof -
  from assms(1,2) have wne: "weights \<noteq> []" by auto
  then have tot: "last (accumulate 0 weights) = sum_list weights"
    by (simp add: last_accumulate)
  from wne have "accumulate 0 weights \<noteq> []"
    using length_accumulate [of 0 weights] by auto
  then have "bisect (accumulate 0 weights) (u * sum_list weights) < length population"
    using bisect_bound [of "accumulate 0 weights"] assms(2) by (simp add: length_accumulate)
  then have "population ! bisect (accumulate 0 weights) (u * sum_list weights) \<in> set population"
    by simp
  moreover have "random_choices u population weights
        = Inr (population ! bisect (accumulate 0 weights) (u * sum_list weights))"
    using assms tot by (simp add: random_choices_def Let_def)
  ultimately show ?thesis by blast
qed


lemma sample_loop_sum:
  assumes dk: "distinct (map fst corpus)"
    and links: "\<forall>(q, out) \<in> set corpus. out \<subseteq> set (map fst corpus)"
    and pos: "\<forall>i \<in> set js. 1 \<le> i"
    and page: "page \<in> set (map fst corpus)"
    and keys: "map fst ds = map fst corpus"
    and start: "sum_list (map snd ds) = 1 \<or> (\<exists>ks. js = 1 # ks)"
  shows "\<exists>ds'. sample_loop corpus d rnd js ds page = Inr ds' \<and> map fst ds' = map fst corpus
           \<and> (js \<noteq> [] \<or> sum_list (map snd ds) = 1 \<longrightarrow> sum_list (map snd ds') = 1)"
  using pos page keys start
proof (induction js arbitrary: ds page)
  case Nil
  then show ?case by simp
next
  case (Cons i js)
  from Cons.prems(2) obtain out where out: "(page, out) \<in> set corpus" by auto
  with links have sub: "out \<subseteq> set (map fst corpus)" by auto
  from transition_model_sum [OF dk out sub, of d] obtain cur where
    cur: "transition_model corpus page d = Inr cur" "map fst cur = map fst corpus"
      "sum_list (map snd cur) = 1"
    by blast
  have dcur: "distinct (map fst cur)" using dk cur(2) by simp
  have "set ds \<subseteq> {(p, v). p \<in> set (map fst cur)}"
  proof (rule subsetI)
    fix x
    assume "x \<in> set ds"
    then have "fst x \<in> set (map fst ds)" by simp
    then have "fst x \<in> set (map fst cur)" using Cons.prems(3) cur(2) by simp
    then show "x \<in> {(p, v). p \<in> set (map fst cur)}" by (simp add: case_prod_unfold)
  qed
  from running_average_sum [OF dcur this, of i] obtain ds1 where
    ds1: "running_average i ds cur = Inr ds1" "map fst ds1 = map fst ds"
      "sum_list (map snd ds1)
         = (real (i - 1) * sum_list (map snd ds)
            + sum_list (map (\<lambda>p. rank_of cur p) (map fst ds))) / real i"
    by blast
  have "sum_list (map (\<lambda>p. rank_of cur p) (map fst ds)) = 1"
    using rank_of_keys [OF dcur] Cons.prems(3) cur(2,3) by simp
  with ds1(3) have s1: "sum_list (map snd ds1) = (real (i - 1) * sum_list (map snd ds) + 1) / real i"
    by simp
  from Cons.prems(1) have i1: "1 \<le> i" by simp
  have one: "sum_list (map snd ds1) = 1"
  proof (cases "sum_list (map snd ds) = 1")
    case True
    with s1 i1 show ?thesis by (simp add: of_nat_diff)
  next
    case False
    with Cons.prems(4) have "i = 1" by simp
    with s1 show ?thesis by simp
  qed
  have k1: "map fst ds1 = map fst corpus" using ds1(2) Cons.prems(3) by simp
  from out have "map fst ds1 \<noteq> []" using k1 by auto
  from random_choices_member [OF this, of "map snd ds1" "rnd i"] one obtain page' where
    p': "page' \<in> set (map fst ds1)"
      "random_choices (rnd i) (map fst ds1) (map snd ds1) = Inr page'"
    by auto
  from Cons.prems(1) have posjs: "\<forall>i \<in> set js. 1 \<le> i" by simp
  from p'(1) k1 have pg: "page' \<in> set (map fst corpus)" by simp
  from Cons.IH [OF posjs pg k1] one obtain ds' where
    ds': "sample_loop corpus d rnd js ds1 page' = Inr ds'" "map fst ds' = map fst corpus"
      "sum_list (map snd ds') = 1"
    by blast
  have "sample_loop corpus d rnd (i # js) ds page = Inr ds'"
    using cur(1) ds1(1) p'(2) ds'(1) by simp
  with ds'(2,3) show ?case by blast
qed

lemma random_choice_member:
  assumes "xs \<noteq> []" "0 \<le> u" "u < 1"
  shows "\<exists>x \<in> set xs. random_choice u xs = Inr x"
proof -
  have "u * real (length xs) < real (length xs)" using assms by simp
  then have "\<lfloor>u * real (length xs)\<rfloor> < int (length xs)"
    by (simp add: floor_less_iff)
  moreover have "0 \<le> \<lfloor>u * real (length xs)\<rfloor>" using assms(2) by simp
  ultimately have "nat \<lfloor>u * real (length xs)\<rfloor> < length xs" by linarith
  then show ?thesis by (simp add: random_choice_def Let_def)
qed

lemma sample_pagerank_sums_to_one:
  assumes "corpus \<noteq> []" "distinct (map fst corpus)"
    and "\<forall>(q, out) \<in> set corpus. out \<subseteq> set (map fst corpus)"
    and "0 \<le> rnd 0" "rnd 0 < 1" "2 \<le> n"
  shows "\<exists>ds. sample_pagerank corpus d n rnd = Inr ds \<and> map fst ds = map fst corpus
           \<and> sum_list (map snd ds) = 1"
proof -
  from assms(1) have "map fst corpus \<noteq> []" by simp
  from random_choice_member [OF this assms(4,5)] obtain page where
    page: "page \<in> set (map fst corpus)" "random_choice (rnd 0) (map fst corpus) = Inr page"
    by blast
  let ?ds = "map (\<lambda>(page, _). (page, 0::real)) corpus"
  have keys: "map fst ?ds = map fst corpus" by (simp add: comp_def case_prod_unfold)
  from assms(6) have up: "\<exists>ks. [1 ..< n] = 1 # ks" by (simp add: upt_conv_Cons)
  have pos: "\<forall>i \<in> set [1 ..< n]. 1 \<le> i" by simp
  have start: "sum_list (map snd ?ds) = 1 \<or> (\<exists>ks. [1 ..< n] = 1 # ks)"
    using up by blast
  from assms(6) have ne: "[1 ..< n] \<noteq> []" by simp
  from sample_loop_sum [OF assms(2,3) pos page(1) keys start, of d rnd] ne obtain ds' where
    "sample_loop corpus d rnd [1 ..< n] ?ds page = Inr ds'" "map fst ds' = map fst corpus"
    "sum_list (map snd ds') = 1"
    by blast
  with page(2) show ?thesis by (simp add: sample_pagerank_def)
qed

lemma sample_pagerank_one_sample:
  "sample_pagerank corpus_pair 0.85 1 (\<lambda>_. 0) = Inr [(''1.html'', 0), (''2.html'', 0)]"
  by (simp add: sample_pagerank_def corpus_pair_def random_choice_def)

text \<open>
  C5. Claim: the rank vector sums to 1 (within \<open>10\<^sup>-\<^sup>6\<close>) after every pass of the
  iterative estimator and in the result of the sampling estimator. After the first
  pass on the two pages that link to each other the ranks of the source sum to 1.85.
\<close>

theorem update_pass_sum_not_one:
  "(case update_pass corpus_pair 0.85 (initial_ranks corpus_pair) (map fst corpus_pair) False of
      Inl e \<Rightarrow> 0
    | Inr (ranks, change) \<Rightarrow> sum_list (map snd ranks)) = 1.85
   \<and> \<bar>1.85 - 1\<bar> > (1 / 10 ^ 6 :: real)"
  by (simp add: corpus_pair_def initial_ranks_def getitem_def)

end
